theory Spec2Isabelle
  imports Main
begin

chapter \<open>Attachment upload and its confirmation (src/browser/actions/attachments.ts)\<close>

text \<open>
  The module uploads a file into the composer of a chat page it does not control and
  then confirms, by polling the page, that the attachment was taken. This theory embeds
  its five functions, \<open>uploadAttachmentFile\<close>, \<open>waitForAttachmentCompletion\<close>,
  \<open>waitForUserTurnAttachments\<close>, \<open>waitForAttachmentVisible\<close> and \<open>waitForAttachmentAnchored\<close>,
  with the name matchers inside them, and proves what holds of them.
\<close>

section \<open>JavaScript strings\<close>

text \<open>
  A JavaScript string is a sequence of UTF-16 code units; \<open>length\<close>, \<open>includes\<close> and a
  regular expression without the \<open>u\<close> flag all work on code units. A code unit is
  modelled by its number, so the one-character ellipsis U+2026 is the single unit 8230.
  \<open>units\<close> reads an ASCII literal as such a string.
\<close>

type_synonym jsstring = "nat list"

definition units :: "string \<Rightarrow> jsstring" where
  "units s = map of_char s"

abbreviation (input) ellipsisChar :: nat where
  "ellipsisChar \<equiv> 8230"

abbreviation (input) dotChar :: nat where
  "dotChar \<equiv> 46"

abbreviation (input) starChar :: nat where
  "starChar \<equiv> 42"

abbreviation (input) backslashChar :: nat where
  "backslashChar \<equiv> 92"

abbreviation (input) spaceChar :: nat where
  "spaceChar \<equiv> 32"

text \<open>
  \<open>toLowerCase\<close>. \<open>String.prototype.toLowerCase\<close> maps a string by the Unicode case
  tables of the JavaScript engine, which are no part of the repository; one code unit can
  become another one outside ASCII (U+00C9 becomes U+00E9) or two units (U+0130 becomes
  U+0069 U+0307). \<open>toLowerCase\<close> below is its restriction to strings whose letters are
  ASCII: \<open>A\<close>--\<open>Z\<close> go to \<open>a\<close>--\<open>z\<close>, every other unit stays. The examples are evaluated
  with it, on names whose only unit outside ASCII is the ellipsis U+2026, which has no
  case. A statement about every string does not rest on it: there the engine's function
  is a parameter (\<open>normalizeNameWith\<close> below).
\<close>

definition lowerUnit :: "nat \<Rightarrow> nat" where
  "lowerUnit c = (if 65 \<le> c \<and> c \<le> 90 then c + 32 else c)"

definition toLowerCase :: "jsstring \<Rightarrow> jsstring" where
  "toLowerCase s = map lowerUnit s"

text \<open>
  The class \<open>\s\<close> of a regular expression, which is also what \<open>trim\<close> removes: the
  WhiteSpace and LineTerminator code units of ECMAScript.
\<close>

definition isWhiteSpace :: "nat \<Rightarrow> bool" where
  "isWhiteSpace c =
     (c = 9 \<or> c = 10 \<or> c = 11 \<or> c = 12 \<or> c = 13 \<or> c = 32 \<or> c = 160 \<or> c = 5760
      \<or> (8192 \<le> c \<and> c \<le> 8202) \<or> c = 8232 \<or> c = 8233 \<or> c = 8239 \<or> c = 8287
      \<or> c = 12288 \<or> c = 65279)"

text \<open>\<open>s.replace(/\s+/g, ' ')\<close>: every maximal run of white space becomes one space.\<close>

function collapseWhitespace :: "jsstring \<Rightarrow> jsstring" where
  "collapseWhitespace [] = []"
| "collapseWhitespace (c # cs) =
     (if isWhiteSpace c then spaceChar # collapseWhitespace (dropWhile isWhiteSpace cs)
      else c # collapseWhitespace cs)"
  by pat_completeness auto
termination
  by (relation "measure length") (auto simp: less_Suc_eq_le length_dropWhile_le)

text \<open>\<open>s.trim()\<close>: white space is removed at both ends.\<close>

definition trim :: "jsstring \<Rightarrow> jsstring" where
  "trim s = rev (dropWhile isWhiteSpace (rev (dropWhile isWhiteSpace s)))"

text \<open>
  The normalisation every name goes through in \<open>waitForAttachmentCompletion\<close> and
  \<open>waitForUserTurnAttachments\<close>: \<open>name.toLowerCase().replace(/\s+/g, ' ').trim()\<close>.
\<close>

definition normalizeName :: "jsstring \<Rightarrow> jsstring" where
  "normalizeName name = trim (collapseWhitespace (toLowerCase name))"

text \<open>
  The same normalisation with the lower-casing as a parameter; \<open>normalizeName\<close> is its
  instance at \<open>toLowerCase\<close>.
\<close>

definition normalizeNameWith :: "(jsstring \<Rightarrow> jsstring) \<Rightarrow> jsstring \<Rightarrow> jsstring" where
  "normalizeNameWith lower name = trim (collapseWhitespace (lower name))"

section \<open>Substring search, base names and extensions\<close>

text \<open>\<open>s.startsWith(p)\<close> and \<open>s.includes(t)\<close>.\<close>

fun startsWith :: "jsstring \<Rightarrow> jsstring \<Rightarrow> bool" where
  "startsWith s [] = True"
| "startsWith [] (p # ps) = False"
| "startsWith (c # cs) (p # ps) = (c = p \<and> startsWith cs ps)"

fun jsIncludes :: "jsstring \<Rightarrow> jsstring \<Rightarrow> bool" where
  "jsIncludes [] t = (t = [])"
| "jsIncludes (c # cs) t = (startsWith (c # cs) t \<or> jsIncludes cs t)"

abbreviation (input) slashChar :: nat where
  "slashChar \<equiv> 47"

text \<open>\<open>s.split(sep).pop()\<close> for a separator of one unit: what follows its last occurrence.\<close>

definition afterLast :: "nat \<Rightarrow> jsstring \<Rightarrow> jsstring" where
  "afterLast sep s = rev (takeWhile (\<lambda>c. c \<noteq> sep) (rev s))"

text \<open>\<open>expected.split('/').pop()?.split('\\').pop() ?? expected\<close>\<close>

definition baseNameOf :: "jsstring \<Rightarrow> jsstring" where
  "baseNameOf expected = afterLast backslashChar (afterLast slashChar expected)"

text \<open>
  The class \<open>[a-z0-9]\<close> under the flag \<open>i\<close>: digits and ASCII letters of both cases (without
  the flag \<open>u\<close> no code unit from 128 on is taken for an ASCII letter).
\<close>

definition isAlnum :: "nat \<Rightarrow> bool" where
  "isAlnum c = ((48 \<le> c \<and> c \<le> 57) \<or> (65 \<le> c \<and> c \<le> 90) \<or> (97 \<le> c \<and> c \<le> 122))"

text \<open>
  \<open>s.replace(/\.[a-z0-9]{1,10}$/i, '')\<close>: the search goes from the left for a dot that
  is followed by one to ten alphanumeric units and then the end of the string; from that
  dot on the string is cut.
\<close>

fun stripExtension :: "jsstring \<Rightarrow> jsstring" where
  "stripExtension [] = []"
| "stripExtension (c # cs) =
     (if c = dotChar \<and> 1 \<le> length cs \<and> length cs \<le> 10 \<and> list_all isAlnum cs then []
      else c # stripExtension cs)"

section \<open>The regular expressions of the ellipsis rule\<close>

text \<open>
  The units of the class \<open>[.*+?^${}()|[\]\\]\<close> that both matchers escape:
  \<open>. * + ? ^ $ { } ( ) | [ ] \\<close>.
\<close>

definition isRegexSpecial :: "nat \<Rightarrow> bool" where
  "isRegexSpecial c = (c \<in> set [46, 42, 43, 63, 94, 36, 123, 125, 40, 41, 124, 91, 93, 92])"

text \<open>\<open>raw.replace(/[.*+?^${}()|[\]\\]/g, '\\$&')\<close>: a backslash goes before each of them.\<close>

definition escapeSpecials :: "jsstring \<Rightarrow> jsstring" where
  "escapeSpecials s = concat (map (\<lambda>c. if isRegexSpecial c then [backslashChar, c] else [c]) s)"

text \<open>
  \<open>escaped.replace(/\\\<dots>|\\\.\\\.\\\./g, '.*')\<close> of \<open>waitForAttachmentCompletion\<close>: from the
  left, a backslash followed by the ellipsis unit, or the six units \<open>\.\.\.\<close>, becomes
  \<open>.*\<close>; the search goes on after the match.
\<close>

fun replaceEscapedEllipsis :: "jsstring \<Rightarrow> jsstring" where
  "replaceEscapedEllipsis [] = []"
| "replaceEscapedEllipsis (c # cs) =
     (if startsWith (c # cs) [backslashChar, ellipsisChar]
      then [dotChar, starChar] @ replaceEscapedEllipsis (drop 1 cs)
      else if startsWith (c # cs)
                [backslashChar, dotChar, backslashChar, dotChar, backslashChar, dotChar]
      then [dotChar, starChar] @ replaceEscapedEllipsis (drop 5 cs)
      else c # replaceEscapedEllipsis cs)"

text \<open>
  \<open>s.replaceAll(pat, rep)\<close> for a string pattern, as \<open>waitForAttachmentAnchored\<close> calls it
  (with the patterns \<open>'\<dots>'\<close> and \<open>'...'\<close>, neither empty).
\<close>

fun replaceAll :: "jsstring \<Rightarrow> jsstring \<Rightarrow> jsstring \<Rightarrow> jsstring" where
  "replaceAll pat rep [] = []"
| "replaceAll pat rep (c # cs) =
     (if pat \<noteq> [] \<and> startsWith (c # cs) pat
      then rep @ replaceAll pat rep (drop (length pat - 1) cs)
      else c # replaceAll pat rep cs)"

text \<open>
  \<open>new RegExp(pattern)\<close>. The patterns the matchers build consist of plain units, escaped
  special units, the dot and the star, so the model reads this fragment: a backslash with
  a special unit after it stands for that unit, a dot for any unit but a line terminator,
  a star repeats the atom before it. \<open>None\<close> is the \<open>SyntaxError\<close> of a lone backslash or
  of a star with nothing to repeat, and every pattern outside the fragment.
\<close>

datatype atom = Lit nat | AnyChar

datatype token = TAtom atom | TStar

datatype piece = Once atom | Star atom

type_synonym regex = "piece list"

fun tokenize :: "jsstring \<Rightarrow> token list option" where
  "tokenize [] = Some []"
| "tokenize [c] =
     (if c = dotChar then Some [TAtom AnyChar]
      else if c = starChar then Some [TStar]
      else if isRegexSpecial c then None
      else Some [TAtom (Lit c)])"
| "tokenize (c # d # r) =
     (if c = backslashChar then
        (if isRegexSpecial d then map_option (Cons (TAtom (Lit d))) (tokenize r) else None)
      else if c = dotChar then map_option (Cons (TAtom AnyChar)) (tokenize (d # r))
      else if c = starChar then map_option (Cons TStar) (tokenize (d # r))
      else if isRegexSpecial c then None
      else map_option (Cons (TAtom (Lit c))) (tokenize (d # r)))"

fun pieces :: "token list \<Rightarrow> regex option" where
  "pieces [] = Some []"
| "pieces (TStar # ts) = None"
| "pieces (TAtom a # TStar # ts) = map_option (Cons (Star a)) (pieces ts)"
| "pieces (TAtom a # ts) = map_option (Cons (Once a)) (pieces ts)"

definition parseRegExp :: "jsstring \<Rightarrow> regex option" where
  "parseRegExp pattern = (case tokenize pattern of None \<Rightarrow> None | Some ts \<Rightarrow> pieces ts)"

definition isLineTerminator :: "nat \<Rightarrow> bool" where
  "isLineTerminator c = (c = 10 \<or> c = 13 \<or> c = 8232 \<or> c = 8233)"

fun atomMatches :: "atom \<Rightarrow> nat \<Rightarrow> bool" where
  "atomMatches (Lit l) c = (c = l)"
| "atomMatches AnyChar c = (\<not> isLineTerminator c)"

text \<open>\<open>matchHere re s\<close>: the expression matches a prefix of \<open>s\<close>.\<close>

fun matchHere :: "regex \<Rightarrow> jsstring \<Rightarrow> bool" where
  "matchHere [] s = True"
| "matchHere (Once a # re) [] = False"
| "matchHere (Once a # re) (c # cs) = (atomMatches a c \<and> matchHere re cs)"
| "matchHere (Star a # re) [] = matchHere re []"
| "matchHere (Star a # re) (c # cs) =
     (matchHere re (c # cs) \<or> (atomMatches a c \<and> matchHere (Star a # re) cs))"

text \<open>\<open>re.test(s)\<close>: the expression matches somewhere in \<open>s\<close>.\<close>

fun regexTest :: "regex \<Rightarrow> jsstring \<Rightarrow> bool" where
  "regexTest re [] = matchHere re []"
| "regexTest re (c # cs) = (matchHere re (c # cs) \<or> regexTest re cs)"

section \<open>The four name matchers\<close>

text \<open>
  \<open>matchesExpected\<close> of \<open>waitForAttachmentCompletion\<close>; \<open>attachedNames\<close> is the list the
  closure reads, already normalised by the caller.
\<close>

definition matchesExpected :: "jsstring list \<Rightarrow> jsstring \<Rightarrow> bool" where
  "matchesExpected attachedNames expected =
     (let baseName = baseNameOf expected;
          normalizedExpected = normalizeName baseName;
          expectedNoExt = stripExtension normalizedExpected
      in list_ex (\<lambda>raw.
           if jsIncludes raw normalizedExpected then True
           else if 6 \<le> length expectedNoExt \<and> jsIncludes raw expectedNoExt then True
           else if jsIncludes raw [ellipsisChar] \<or> jsIncludes raw [dotChar, dotChar, dotChar]
           then
             (let escaped = escapeSpecials raw;
                  pattern = replaceEscapedEllipsis escaped
              in case parseRegExp pattern of
                   None \<Rightarrow> False
                 | Some re \<Rightarrow>
                     regexTest re normalizedExpected
                     \<or> (6 \<le> length expectedNoExt \<and> regexTest re expectedNoExt))
           else False) attachedNames)"

text \<open>
  \<open>matchesExpected\<close> of the page expression of \<open>waitForAttachmentAnchored\<close>; \<open>normalized\<close>
  is \<open>expectedName.toLowerCase()\<close>, spliced into the expression by the caller.
\<close>

definition matchesExpectedAnchored :: "jsstring \<Rightarrow> jsstring \<Rightarrow> bool" where
  "matchesExpectedAnchored normalized value =
     (let normalizedNoExt = stripExtension normalized;
          text = toLowerCase value
      in if text = [] then False
         else if jsIncludes text normalized then True
         else if 6 \<le> length normalizedNoExt \<and> jsIncludes text normalizedNoExt then True
         else if jsIncludes text [ellipsisChar] \<or> jsIncludes text [dotChar, dotChar, dotChar]
         then
           (let escaped = escapeSpecials text;
                pattern = replaceAll [dotChar, dotChar, dotChar] [dotChar, starChar]
                            (replaceAll [ellipsisChar] [dotChar, starChar] escaped)
            in case parseRegExp pattern of
                 None \<Rightarrow> False
               | Some re \<Rightarrow>
                   regexTest re normalized
                   \<or> (6 \<le> length normalizedNoExt \<and> regexTest re normalizedNoExt))
         else False)"

text \<open>
  A DOM node as the page expressions read it: its text content and the attributes
  \<open>aria-label\<close>, \<open>title\<close>, \<open>data-testid\<close> and \<open>alt\<close>, each of which may be absent.
\<close>

record domNode =
  textContent :: "jsstring option"
  ariaLabel :: "jsstring option"
  titleAttr :: "jsstring option"
  testId :: "jsstring option"
  altAttr :: "jsstring option"

text \<open>\<open>x || ''\<close> and \<open>x ?? ''\<close> on a string that may be absent.\<close>

definition orEmpty :: "jsstring option \<Rightarrow> jsstring" where
  "orEmpty x = (case x of None \<Rightarrow> [] | Some s \<Rightarrow> s)"

text \<open>
  \<open>matchNode\<close> of the page expression of \<open>waitForAttachmentVisible\<close>; \<open>normalized\<close> is
  \<open>expected.toLowerCase()\<close>.
\<close>

definition matchNode :: "jsstring \<Rightarrow> domNode \<Rightarrow> bool" where
  "matchNode normalized node =
     (let normalizedNoExt = stripExtension normalized;
          text = toLowerCase (orEmpty (textContent node));
          aria = toLowerCase (orEmpty (ariaLabel node));
          title = toLowerCase (orEmpty (titleAttr node));
          testIdL = toLowerCase (orEmpty (testId node));
          alt = toLowerCase (orEmpty (altAttr node));
          candidates = filter (\<lambda>v. v \<noteq> []) [text, aria, title, testIdL, alt]
      in list_ex (\<lambda>v. jsIncludes v normalized
                       \<or> (6 \<le> length normalizedNoExt \<and> jsIncludes v normalizedNoExt))
           candidates)"

text \<open>
  The test of the \<open>missing\<close> filter of \<open>waitForUserTurnAttachments\<close>: whether \<open>expected\<close>
  is missing from the haystack.
\<close>

definition userTurnMissing :: "jsstring \<Rightarrow> jsstring \<Rightarrow> bool" where
  "userTurnMissing haystack expected =
     (let baseName = baseNameOf expected;
          normalizedExpected = normalizeName baseName;
          expectedNoExt = stripExtension normalizedExpected
      in if jsIncludes haystack normalizedExpected then False
         else if 6 \<le> length expectedNoExt \<and> jsIncludes haystack expectedNoExt then False
         else True)"

text \<open>
  The test of the \<open>inputMissing\<close> filter of \<open>waitForAttachmentCompletion\<close>: whether
  \<open>expected\<close> is missing from the file names of the file inputs.
\<close>

definition inputMissing :: "jsstring list \<Rightarrow> jsstring \<Rightarrow> bool" where
  "inputMissing inputNames expected =
     (let baseName = baseNameOf expected;
          normalizedExpected = normalizeName baseName;
          expectedNoExt = stripExtension normalizedExpected
      in \<not> list_ex (\<lambda>raw. jsIncludes raw normalizedExpected
                           \<or> (6 \<le> length expectedNoExt \<and> jsIncludes raw expectedNoExt))
            inputNames)"

section \<open>The page, the clock and the effects\<close>

text \<open>
  The functions of the module talk to the page through \<open>Runtime.evaluate\<close> and the
  \<open>DOM\<close> domain, read the clock with \<open>Date.now()\<close> and sleep with \<open>delay\<close>. The model
  threads a world through them: the clock in milliseconds and the trace of what was done
  to the page. Time passes only while a call is awaited; what the page answers and how
  long each call takes is the environment's choice and comes as a parameter. A call to
  the page is taken to answer: the module catches a failed call in three places only
  (the two clicks and the snapshot of \<open>uploadAttachmentFile\<close>), and there the model has the
  failure as one of the answers.
\<close>

datatype expression =
    PlusClick
  | MenuClick
  | AttachmentPresent jsstring
  | MarkTarget
  | DispatchEvents
  | UploadSnapshot
  | CompletionProbe
  | UserTurnProbe
  | VisibleProbe jsstring
  | AnchoredProbe jsstring

datatype failureTag =
    FileInputMissing
  | FileUploadMissing
  | FileUploadTimeout
  | AttachmentMissingUserTurn
  | AttachmentVisible

datatype logLine =
    AlreadyPresent jsstring
  | SnapshotAfterSetFiles
  | QueuedAnchoredInputConfirmed
  | QueuedAnchored
  | QueuedInputOnly
  | UploadTimedOut
  | UserTurnNamesMissing
  | NotVisibleGivingUp

datatype effect =
    Evaluated expression
  | Slept nat
  | Logged logLine
  | DomFailureLogged failureTag
  | GotDocument
  | QueriedSelector
  | SetFileInputFiles nat jsstring

text \<open>The errors the module throws, one for each message.\<close>

datatype error =
    DomUnavailable
  | InputNotLocated
  | NotRegistered
  | UploadTimeout
  | MissingOnUserTurn
  | NotVisible

datatype 'a outcome = Returned 'a | Threw error

record world =
  clock :: int
  trace :: "effect list"

text \<open>An answer of the page together with the time the call took.\<close>

record 'v reply =
  answer :: 'v
  took :: nat

text \<open>
  What one round of a polling loop meets: the answer to its probe, and by how much the
  sleep after it runs over.
\<close>

record 'v probe = "'v reply" +
  overslept :: nat

definition evaluateW :: "expression \<Rightarrow> nat \<Rightarrow> world \<Rightarrow> world" where
  "evaluateW e ms w = w\<lparr>clock := clock w + int ms, trace := trace w @ [Evaluated e]\<rparr>"

definition domW :: "effect \<Rightarrow> nat \<Rightarrow> world \<Rightarrow> world" where
  "domW e ms w = w\<lparr>clock := clock w + int ms, trace := trace w @ [e]\<rparr>"

text \<open>
  Modelled from the spec: \<open>delay\<close> of \<open>utils.js\<close> is no file of the sources. The spec has
  the waits sleep a fixed interval between probes; the model lets the sleep last the
  interval asked for and whatever the scheduler adds (\<open>late\<close>).
\<close>

definition delayW :: "nat \<Rightarrow> nat \<Rightarrow> world \<Rightarrow> world" where
  "delayW ms late w = w\<lparr>clock := clock w + int ms + int late, trace := trace w @ [Slept ms]\<rparr>"

text \<open>
  Modelled from the spec: the logger is a sink for progress lines that never throws and
  never blocks.
\<close>

definition loggerW :: "logLine \<Rightarrow> world \<Rightarrow> world" where
  "loggerW l w = w\<lparr>trace := trace w @ [Logged l]\<rparr>"

text \<open>\<open>logger?.(line)\<close> of the waits, whose logger is optional.\<close>

definition optLoggerW :: "bool \<Rightarrow> logLine \<Rightarrow> world \<Rightarrow> world" where
  "optLoggerW hasLogger l w = (if hasLogger then loggerW l w else w)"

text \<open>
  Modelled from the spec: \<open>logDomFailure\<close> of \<open>domDebug.js\<close> is no file of the sources. The
  spec has the diagnostics sink capture the page state under a tag and never mask the
  error it is called for: it returns, after some time.
\<close>

definition logDomFailureW :: "failureTag \<Rightarrow> nat \<Rightarrow> world \<Rightarrow> world" where
  "logDomFailureW tag ms w =
     w\<lparr>clock := clock w + int ms, trace := trace w @ [DomFailureLogged tag]\<rparr>"

section \<open>waitForAttachmentVisible and waitForAttachmentAnchored\<close>

text \<open>
  The answer of both probes is \<open>result?.value?.found\<close>: \<open>None\<close> when no value or no such
  field came back. \<open>isFound\<close> is its truth value.
\<close>

definition isFound :: "bool option \<Rightarrow> bool" where
  "isFound v = (v = Some True)"

text \<open>
  The loop of \<open>waitForAttachmentVisible\<close>; \<open>i\<close> counts the rounds. The result is whether the
  name was found before the deadline.
\<close>

function visibleLoop ::
  "(nat \<Rightarrow> bool option probe) \<Rightarrow> jsstring \<Rightarrow> int \<Rightarrow> nat \<Rightarrow> world \<Rightarrow> bool \<times> world" where
  "visibleLoop page expectedName deadline i w =
     (if clock w < deadline then
        (if isFound (answer (page i))
         then (True, evaluateW (VisibleProbe expectedName) (took (page i)) w)
         else visibleLoop page expectedName deadline (Suc i)
                (delayW 200 (overslept (page i))
                   (evaluateW (VisibleProbe expectedName) (took (page i)) w)))
      else (False, w))"
  by pat_completeness auto
termination
  by (relation "measure (\<lambda>(page, expectedName, deadline, i, w). nat (deadline - clock w))")
     (auto simp: delayW_def evaluateW_def)

definition waitForAttachmentVisible ::
  "(nat \<Rightarrow> bool option probe) \<Rightarrow> nat \<Rightarrow> jsstring \<Rightarrow> int \<Rightarrow> bool \<Rightarrow> world \<Rightarrow> unit outcome \<times> world" where
  "waitForAttachmentVisible page diagMs expectedName timeoutMs hasLogger w =
     (let deadline = clock w + timeoutMs
      in case visibleLoop page expectedName deadline 0 w of
           (True, w1) \<Rightarrow> (Returned (), w1)
         | (False, w1) \<Rightarrow>
             (Threw NotVisible,
              logDomFailureW AttachmentVisible diagMs (optLoggerW hasLogger NotVisibleGivingUp w1)))"

function anchoredLoop ::
  "(nat \<Rightarrow> bool option probe) \<Rightarrow> jsstring \<Rightarrow> int \<Rightarrow> nat \<Rightarrow> world \<Rightarrow> bool \<times> world" where
  "anchoredLoop page expectedName deadline i w =
     (if clock w < deadline then
        (if isFound (answer (page i))
         then (True, evaluateW (AnchoredProbe expectedName) (took (page i)) w)
         else anchoredLoop page expectedName deadline (Suc i)
                (delayW 200 (overslept (page i))
                   (evaluateW (AnchoredProbe expectedName) (took (page i)) w)))
      else (False, w))"
  by pat_completeness auto
termination
  by (relation "measure (\<lambda>(page, expectedName, deadline, i, w). nat (deadline - clock w))")
     (auto simp: delayW_def evaluateW_def)

definition waitForAttachmentAnchored ::
  "(nat \<Rightarrow> bool option probe) \<Rightarrow> jsstring \<Rightarrow> int \<Rightarrow> world \<Rightarrow> bool \<times> world" where
  "waitForAttachmentAnchored page expectedName timeoutMs w =
     anchoredLoop page expectedName (clock w + timeoutMs) 0 w"

text \<open>
  What the two page expressions compute. The view of the document they read: the nodes
  the attachment selectors find, in the order of the search, and the inner text of the
  card around each remove button (absent when the button has no such ancestor).
\<close>

record composerView =
  attachmentNodes :: "domNode list"
  cardInnerTexts :: "jsstring option list"

definition cardTexts :: "composerView \<Rightarrow> jsstring list" where
  "cardTexts v = map (\<lambda>t. toLowerCase (orEmpty t)) (cardInnerTexts v)"

definition visibleExpression :: "jsstring \<Rightarrow> composerView \<Rightarrow> bool" where
  "visibleExpression expected v =
     (let normalized = toLowerCase expected;
          normalizedNoExt = stripExtension normalized
      in if list_ex (matchNode normalized) (attachmentNodes v) then True
         else if list_ex (\<lambda>text. jsIncludes text normalized
                     \<or> (6 \<le> length normalizedNoExt \<and> jsIncludes text normalizedNoExt))
                   (cardTexts v)
         then True
         else False)"

text \<open>
  For the anchored probe \<open>attachmentNodes\<close> are the nodes its five selectors find;
  \<open>normalized\<close> is \<open>expectedName.toLowerCase()\<close>.
\<close>

definition anchoredExpression :: "jsstring \<Rightarrow> composerView \<Rightarrow> bool" where
  "anchoredExpression normalized v =
     (if list_ex (\<lambda>node. list_ex (matchesExpectedAnchored normalized)
                     [orEmpty (textContent node), orEmpty (ariaLabel node),
                      orEmpty (titleAttr node)])
           (attachmentNodes v)
      then True
      else if list_ex (matchesExpectedAnchored normalized) (cardTexts v) then True
      else False)"

section \<open>waitForAttachmentCompletion\<close>

text \<open>The state of the send button, as the probe reports it.\<close>

datatype sendState = Ready | Disabled | Missing

text \<open>The value of the probe of \<open>waitForAttachmentCompletion\<close>.\<close>

record snapshot =
  state :: sendState
  uploading :: bool
  filesAttached :: bool
  attachedNames :: "jsstring list"
  inputNames :: "jsstring list"

text \<open>Which of the three \<open>return\<close> statements of the loop ended the wait.\<close>

datatype readiness = ChipsAndReady | ChipsAndNoButton | InputsStable

text \<open>
  How one round of the loop ends: with a \<open>return\<close>; with \<open>await delay(500); continue\<close>
  (\<open>Hold\<close>, which leaves \<open>inputMatchSince\<close> as it is); or at the end of the body with
  \<open>await delay(250)\<close> (\<open>Poll\<close>, with the value \<open>inputMatchSince\<close> then has).
\<close>

datatype verdict = Done readiness | Hold | Poll "int option"

text \<open>
  The body of the loop after the probe has answered. \<open>now\<close> is the clock at that moment:
  the body awaits nothing before its two readings of \<open>Date.now()\<close>.
\<close>

definition completionTick ::
  "jsstring list \<Rightarrow> snapshot option \<Rightarrow> int \<Rightarrow> int option \<Rightarrow> verdict" where
  "completionTick expectedNormalized value now inputMatchSince =
     (case value of
        None \<Rightarrow> Poll inputMatchSince
      | Some v \<Rightarrow>
          if uploading v then Poll inputMatchSince
          else
            (let attached = filter (\<lambda>name. name \<noteq> []) (map normalizeName (attachedNames v));
                 inputs = filter (\<lambda>name. name \<noteq> []) (map normalizeName (inputNames v));
                 missing = filter (\<lambda>expected. \<not> matchesExpected attached expected)
                             expectedNormalized
             in if missing = [] \<and> state v = Ready then Done ChipsAndReady
                else if missing = [] \<and> state v = Missing \<and> filesAttached v
                then Done ChipsAndNoButton
                else if missing = [] \<and> filesAttached v then Hold
                else if filter (inputMissing inputs) expectedNormalized = [] \<and> state v = Ready
                then
                  (let since = (case inputMatchSince of None \<Rightarrow> now | Some s \<Rightarrow> s)
                   in if now - since > 1500 then Done InputsStable
                      else Poll (Some since))
                else Poll None))"

text \<open>
  The loop; \<open>i\<close> counts the rounds. The result is how the wait returned, or \<open>None\<close> when
  the deadline passed first.
\<close>

function completionLoop ::
  "(nat \<Rightarrow> snapshot option probe) \<Rightarrow> jsstring list \<Rightarrow> int \<Rightarrow> nat \<Rightarrow> int option \<Rightarrow> world
     \<Rightarrow> readiness option \<times> world" where
  "completionLoop page expectedNormalized deadline i inputMatchSince w =
     (if clock w < deadline then
        (case completionTick expectedNormalized (answer (page i))
                (clock (evaluateW CompletionProbe (took (page i)) w)) inputMatchSince of
           Done r \<Rightarrow> (Some r, evaluateW CompletionProbe (took (page i)) w)
         | Hold \<Rightarrow>
             completionLoop page expectedNormalized deadline (Suc i) inputMatchSince
               (delayW 500 (overslept (page i))
                  (evaluateW CompletionProbe (took (page i)) w))
         | Poll since \<Rightarrow>
             completionLoop page expectedNormalized deadline (Suc i) since
               (delayW 250 (overslept (page i))
                  (evaluateW CompletionProbe (took (page i)) w)))
      else (None, w))"
  by pat_completeness auto
termination
  by (relation "measure (\<lambda>(page, expectedNormalized, deadline, i, since, w).
                   nat (deadline - clock w))")
     (auto simp: delayW_def evaluateW_def)


section \<open>waitForUserTurnAttachments\<close>

text \<open>The value of its probe; \<open>text\<close> and \<open>attrs\<close> are absent when no user turn was found.\<close>

record userTurnValue =
  ok :: bool
  turnText :: "jsstring option"
  attrs :: "jsstring list option"

text \<open>\<open>parts.join(sep)\<close> for a separator of one unit.\<close>

fun joinWith :: "nat \<Rightarrow> jsstring list \<Rightarrow> jsstring" where
  "joinWith sep [] = []"
| "joinWith sep [x] = x"
| "joinWith sep (x # y # r) = x @ sep # joinWith sep (y # r)"

text \<open>\<open>[value.text ?? '', ...(value.attrs ?? [])].join('\n')\<close>\<close>

definition haystackOf :: "userTurnValue \<Rightarrow> jsstring" where
  "haystackOf v =
     joinWith 10 (orEmpty (turnText v) # (case attrs v of None \<Rightarrow> [] | Some a \<Rightarrow> a))"

text \<open>
  How one round of the loop ends: \<open>NoTurn\<close> is \<open>await delay(200); continue\<close>, \<open>NamesMissing\<close>
  the \<open>await delay(250)\<close> at the end of the body, \<open>AllShown\<close> the \<open>return\<close>.
\<close>

datatype turnVerdict = AllShown | NoTurn | NamesMissing

definition userTurnTick :: "jsstring list \<Rightarrow> userTurnValue option \<Rightarrow> turnVerdict" where
  "userTurnTick expectedNormalized value =
     (case value of
        None \<Rightarrow> NoTurn
      | Some v \<Rightarrow>
          if \<not> ok v then NoTurn
          else if filter (userTurnMissing (haystackOf v)) expectedNormalized = [] then AllShown
          else NamesMissing)"

function userTurnLoop ::
  "(nat \<Rightarrow> userTurnValue option probe) \<Rightarrow> jsstring list \<Rightarrow> int \<Rightarrow> nat \<Rightarrow> world
     \<Rightarrow> bool \<times> world" where
  "userTurnLoop page expectedNormalized deadline i w =
     (if clock w < deadline then
        (case userTurnTick expectedNormalized (answer (page i)) of
           AllShown \<Rightarrow> (True, evaluateW UserTurnProbe (took (page i)) w)
         | NoTurn \<Rightarrow>
             userTurnLoop page expectedNormalized deadline (Suc i)
               (delayW 200 (overslept (page i)) (evaluateW UserTurnProbe (took (page i)) w))
         | NamesMissing \<Rightarrow>
             userTurnLoop page expectedNormalized deadline (Suc i)
               (delayW 250 (overslept (page i)) (evaluateW UserTurnProbe (took (page i)) w)))
      else (False, w))"
  by pat_completeness auto
termination
  by (relation "measure (\<lambda>(page, expectedNormalized, deadline, i, w).
                   nat (deadline - clock w))")
     (auto simp: delayW_def evaluateW_def)

text \<open>
  \<open>expectedNames\<close> is \<open>None\<close> when the caller passes no list (\<open>!expectedNames\<close>).
\<close>

definition waitForUserTurnAttachments ::
  "(nat \<Rightarrow> userTurnValue option probe) \<Rightarrow> nat \<Rightarrow> jsstring list option \<Rightarrow> int \<Rightarrow> bool
     \<Rightarrow> world \<Rightarrow> unit outcome \<times> world" where
  "waitForUserTurnAttachments page diagMs expectedNames timeoutMs hasLogger w =
     (case expectedNames of
        None \<Rightarrow> (Returned (), w)
      | Some names \<Rightarrow>
          if length names = 0 then (Returned (), w)
          else
            (let expectedNormalized = map toLowerCase names;
                 deadline = clock w + timeoutMs
             in case userTurnLoop page expectedNormalized deadline 0 w of
                  (True, w1) \<Rightarrow> (Returned (), w1)
                | (False, w1) \<Rightarrow>
                    (Threw MissingOnUserTurn,
                     logDomFailureW AttachmentMissingUserTurn diagMs
                       (optLoggerW hasLogger UserTurnNamesMissing w1))))"

section \<open>uploadAttachmentFile\<close>

text \<open>A file input of the document: its \<open>accept\<close> attribute and the names of its files.\<close>

record fileInput =
  acceptAttr :: "jsstring option"
  fileNames :: "jsstring list"

text \<open>
  What the presence check and the marking expression read of the document: the text of
  the nodes the attachment selectors find, the inner text of the card around each
  \<open>Remove file\<close> button, and the file inputs, in document order.
\<close>

record primingView =
  chipTexts :: "jsstring option list"
  removeCardTexts :: "jsstring option list"
  fileInputs :: "fileInput list"

text \<open>
  The expression of \<open>isAttachmentPresent\<close>; \<open>expected\<close> is \<open>name.toLowerCase()\<close>.
\<close>

definition isAttachmentPresentExpression :: "jsstring \<Rightarrow> primingView \<Rightarrow> bool" where
  "isAttachmentPresentExpression expected v =
     (if list_ex (\<lambda>t. jsIncludes (toLowerCase (orEmpty t)) expected) (chipTexts v) then True
      else if list_ex (\<lambda>t. jsIncludes (toLowerCase (orEmpty t)) expected) (removeCardTexts v)
      then True
      else list_ex (\<lambda>el. list_ex (\<lambda>name. jsIncludes (toLowerCase name) expected) (fileNames el))
             (fileInputs v))"

text \<open>\<open>s.split(sep)\<close> for a separator of one unit.\<close>

fun splitOn :: "nat \<Rightarrow> jsstring \<Rightarrow> jsstring list" where
  "splitOn sep [] = [[]]"
| "splitOn sep (c # cs) =
     (if c = sep then [] # splitOn sep cs
      else (case splitOn sep cs of [] \<Rightarrow> [[c]] | p # ps \<Rightarrow> (c # p) # ps))"

definition acceptIsImageOnly :: "jsstring option \<Rightarrow> bool" where
  "acceptIsImageOnly accept =
     (case accept of
        None \<Rightarrow> False
      | Some a \<Rightarrow>
          if a = [] then False
          else
            (let parts = filter (\<lambda>p. p \<noteq> []) (map (\<lambda>p. toLowerCase (trim p)) (splitOn 44 a))
             in length parts > 0 \<and> list_all (\<lambda>p. startsWith p (units ''image/'')) parts))"

text \<open>
  The marking expression: the input it tags, if any. Its value is whether there is one.
\<close>

definition markTarget :: "primingView \<Rightarrow> fileInput option" where
  "markTarget v =
     (let inputs = fileInputs v;
          nonImage = filter (\<lambda>el. \<not> acceptIsImageOnly (acceptAttr el)) inputs
      in if nonImage \<noteq> [] then Some (last nonImage)
         else if inputs \<noteq> [] then Some (last inputs)
         else None)"

definition markTargetExpression :: "primingView \<Rightarrow> bool" where
  "markTargetExpression v = (markTarget v \<noteq> None)"

text \<open>The value of the snapshot taken after the files were set.\<close>

record uploadSnapshot =
  snapChips :: "jsstring list"
  snapInputs :: "jsstring list list"

definition inputHasFile :: "jsstring \<Rightarrow> uploadSnapshot option \<Rightarrow> bool" where
  "inputHasFile expectedName snap =
     (case snap of
        None \<Rightarrow> False
      | Some s \<Rightarrow>
          list_ex (\<lambda>entry. list_ex (\<lambda>name. jsIncludes (toLowerCase name) (toLowerCase expectedName))
                     entry)
            (snapInputs s))"

text \<open>
  The environment of one call: whether \<open>deps.dom\<close> is there, what \<open>path.basename\<close> of the
  platform makes of a path, and what each call to the page meets, in the order of the
  calls. The two clicks are best effort: their results are dropped and their failures
  caught, so only their duration counts. \<open>queriedNode\<close> is \<open>resultNode?.nodeId\<close>, which
  the code takes for missing when it is absent or 0;
  \<open>afterSnapshot\<close> is \<open>None\<close> when the snapshot evaluation failed or brought no value.
\<close>

record uploadEnv =
  domPresent :: bool
  basename :: "jsstring \<Rightarrow> jsstring"
  plusClick :: "unit reply"
  settleLate :: nat
  menuClick :: "unit reply"
  presenceView :: "primingView reply"
  markView :: "primingView reply"
  getDocumentMs :: nat
  queriedNode :: "nat option reply"
  setFilesMs :: nat
  dispatchMs :: nat
  afterSnapshot :: "uploadSnapshot option reply"
  anchoredPage :: "nat \<Rightarrow> bool option probe"
  visiblePage :: "nat \<Rightarrow> bool option probe"
  diagnosticsMs :: nat

record browserAttachment =
  path :: jsstring

text \<open>
  The part of \<open>uploadAttachmentFile\<close> after the target input was resolved to a node:
  \<open>tryFileInput\<close>, the snapshot, and the two waits.
\<close>

definition dispatchAndConfirm ::
  "uploadEnv \<Rightarrow> browserAttachment \<Rightarrow> jsstring \<Rightarrow> nat \<Rightarrow> world \<Rightarrow> unit outcome \<times> world" where
  "dispatchAndConfirm env attachment expectedName resolvedNodeId w =
     (let w1 = domW (SetFileInputFiles resolvedNodeId (path attachment)) (setFilesMs env) w;
          w2 = evaluateW DispatchEvents (dispatchMs env) w1;
          w3 = evaluateW UploadSnapshot (took (afterSnapshot env)) w2;
          snap = answer (afterSnapshot env);
          w4 = (if snap \<noteq> None then loggerW SnapshotAfterSetFiles w3 else w3);
          hasFile = inputHasFile expectedName snap;
          attachmentUiTimeoutMs = 12000
      in case waitForAttachmentAnchored (anchoredPage env) expectedName attachmentUiTimeoutMs w4 of
           (True, w5) \<Rightarrow>
             (case waitForAttachmentVisible (visiblePage env) (diagnosticsMs env) expectedName
                     attachmentUiTimeoutMs True w5 of
                (Threw e, w6) \<Rightarrow> (Threw e, w6)
              | (Returned u, w6) \<Rightarrow>
                  (Returned (),
                   loggerW (if hasFile then QueuedAnchoredInputConfirmed else QueuedAnchored) w6))
         | (False, w5) \<Rightarrow>
             if hasFile then (Returned (), loggerW QueuedInputOnly w5)
             else (Threw NotRegistered, logDomFailureW FileUploadMissing (diagnosticsMs env) w5))"

definition uploadAttachmentFile ::
  "uploadEnv \<Rightarrow> browserAttachment \<Rightarrow> world \<Rightarrow> unit outcome \<times> world" where
  "uploadAttachmentFile env attachment w =
     (if \<not> domPresent env then (Threw DomUnavailable, w)
      else
        (let w1 = evaluateW PlusClick (took (plusClick env)) w;
             w2 = delayW 250 (settleLate env) w1;
             w3 = evaluateW MenuClick (took (menuClick env)) w2;
             expectedName = basename env (path attachment);
             w4 = evaluateW (AttachmentPresent (toLowerCase expectedName))
                    (took (presenceView env)) w3
         in if isAttachmentPresentExpression (toLowerCase expectedName)
                 (answer (presenceView env))
            then (Returned (), loggerW (AlreadyPresent expectedName) w4)
            else
              (let w5 = evaluateW MarkTarget (took (markView env)) w4;
                   marked = markTargetExpression (answer (markView env))
               in if \<not> marked
                  then (Threw InputNotLocated,
                        logDomFailureW FileInputMissing (diagnosticsMs env) w5)
                  else
                    (let w6 = domW GotDocument (getDocumentMs env) w5;
                         w7 = domW QueriedSelector (took (queriedNode env)) w6
                     in case answer (queriedNode env) of
                          None \<Rightarrow>
                            (Threw InputNotLocated,
                             logDomFailureW FileInputMissing (diagnosticsMs env) w7)
                        | Some resolvedNodeId \<Rightarrow>
                            if resolvedNodeId = 0
                            then (Threw InputNotLocated,
                                  logDomFailureW FileInputMissing (diagnosticsMs env) w7)
                            else dispatchAndConfirm env attachment expectedName
                                   resolvedNodeId w7))))"

section \<open>Notions used in the statements and proofs\<close>

text \<open>
  A string whose white space is normal: every white-space unit is a space, and no two of
  them are neighbours.
\<close>

fun wsNormal :: "jsstring \<Rightarrow> bool" where
  "wsNormal [] = True"
| "wsNormal [c] = (if isWhiteSpace c then c = spaceChar else True)"
| "wsNormal (c # d # r) =
     ((if isWhiteSpace c then c = spaceChar \<and> \<not> isWhiteSpace d else True) \<and> wsNormal (d # r))"

text \<open>The trigger of the ellipsis rule: the text has \<open>\<dots>\<close> or three dots in a row.\<close>

definition hasEllipsisMarker :: "jsstring \<Rightarrow> bool" where
  "hasEllipsisMarker text = (jsIncludes text [ellipsisChar] \<or> jsIncludes text [dotChar, dotChar, dotChar])"

text \<open>
  The two rules all matchers have: the name is in the text, or its stem without
  extension has at least six units and is in the text.
\<close>

definition substringOrStem :: "jsstring \<Rightarrow> jsstring \<Rightarrow> bool" where
  "substringOrStem text name =
     (jsIncludes text name
      \<or> (6 \<le> length (stripExtension name) \<and> jsIncludes text (stripExtension name)))"

text \<open>
  Each matcher as a predicate of one displayed text and one expected file name, with
  what its caller does to both on the way:
  \<^item> \<open>waitForAttachmentCompletion\<close> lower-cases the expected names, normalises the reported
    texts and drops the empty ones before \<open>matchesExpected\<close> reads them;
  \<^item> \<open>waitForAttachmentAnchored\<close> splices \<open>expectedName.toLowerCase()\<close> into its expression;
  \<^item> \<open>matchNode\<close> of \<open>waitForAttachmentVisible\<close>, on a node that has the text and no
    attribute;
  \<^item> \<open>waitForUserTurnAttachments\<close> lower-cases the expected names, and its expression the
    text of the turn; a name matches when the filter does not find it missing.
\<close>

definition completionMatch :: "jsstring \<Rightarrow> jsstring \<Rightarrow> bool" where
  "completionMatch candidate expected =
     matchesExpected (filter (\<lambda>name. name \<noteq> []) (map normalizeName [candidate]))
       (toLowerCase expected)"

definition anchoredMatch :: "jsstring \<Rightarrow> jsstring \<Rightarrow> bool" where
  "anchoredMatch candidate expected = matchesExpectedAnchored (toLowerCase expected) candidate"

definition visibleMatch :: "jsstring \<Rightarrow> jsstring \<Rightarrow> bool" where
  "visibleMatch candidate expected =
     matchNode (toLowerCase expected)
       \<lparr>textContent = Some candidate, ariaLabel = None, titleAttr = None, testId = None,
        altAttr = None\<rparr>"

definition userTurnMatch :: "jsstring \<Rightarrow> jsstring \<Rightarrow> bool" where
  "userTurnMatch candidate expected =
     (\<not> userTurnMissing (toLowerCase candidate) (toLowerCase expected))"





text \<open>
  Environments for the examples: a world that starts at time 0 with nothing done, and a
  page that answers every probe at once with the same value.
\<close>

definition startWorld :: world where
  "startWorld = \<lparr>clock = 0, trace = []\<rparr>"

definition steadyPage :: "'v \<Rightarrow> nat \<Rightarrow> 'v probe" where
  "steadyPage v i = \<lparr>answer = v, took = 0, overslept = 0\<rparr>"

text \<open>
  Sample snapshots for the name \<open>report.csv\<close>: one with a chip of that name, one with the
  name only in a file input.
\<close>

definition chipSnapshot :: "sendState \<Rightarrow> bool \<Rightarrow> snapshot" where
  "chipSnapshot st busy =
     \<lparr>state = st, uploading = busy, filesAttached = True,
      attachedNames = [units ''report.csv''], inputNames = []\<rparr>"





text \<open>
  For the statements about \<open>waitForAttachmentVisible\<close>: when round \<open>i + k\<close> of its loop
  starts, if round \<open>i\<close> starts at time \<open>t\<close> and no round before finds the name. Each
  round lasts as long as its probe, the sleep of 200 ms and what the sleep runs over.
\<close>

primrec roundStart :: "(nat \<Rightarrow> 'v probe) \<Rightarrow> nat \<Rightarrow> int \<Rightarrow> nat \<Rightarrow> int" where
  "roundStart page i t 0 = t"
| "roundStart page i t (Suc k) =
     roundStart page (Suc i) (t + int (took (page i)) + 200 + int (overslept (page i))) k"

text \<open>
  Two more pages for the examples: one that never shows the name and takes a second to
  answer each probe, and one that shows the name from round \<open>n\<close> on and answers at once.
\<close>

definition slowPage :: "nat \<Rightarrow> bool option probe" where
  "slowPage i = \<lparr>answer = Some False, took = 1000, overslept = 0\<rparr>"

definition appearingPage :: "nat \<Rightarrow> nat \<Rightarrow> bool option probe" where
  "appearingPage n i = \<lparr>answer = Some (n \<le> i), took = 0, overslept = 0\<rparr>"

text \<open>
  \<open>path.basename\<close> of Node, in its POSIX form and without the suffix argument: the
  slashes at the end are dropped, and what follows the last slash of the rest is the
  name.
\<close>

definition posixBasename :: "jsstring \<Rightarrow> jsstring" where
  "posixBasename p = afterLast slashChar (rev (dropWhile (\<lambda>c. c = slashChar) (rev p)))"

text \<open>
  An environment for the examples of \<open>uploadAttachmentFile\<close>: every call is answered at
  once, the presence check and the marking expression both see the document \<open>view\<close>, the
  tagged input resolves to node 7, the snapshot lists no file, and the name never shows
  in the composer.
\<close>

definition sampleEnv :: "bool \<Rightarrow> primingView \<Rightarrow> uploadEnv" where
  "sampleEnv hasDom view =
     \<lparr>domPresent = hasDom,
      basename = posixBasename,
      plusClick = \<lparr>answer = (), took = 0\<rparr>,
      settleLate = 0,
      menuClick = \<lparr>answer = (), took = 0\<rparr>,
      presenceView = \<lparr>answer = view, took = 0\<rparr>,
      markView = \<lparr>answer = view, took = 0\<rparr>,
      getDocumentMs = 0,
      queriedNode = \<lparr>answer = Some 7, took = 0\<rparr>,
      setFilesMs = 0,
      dispatchMs = 0,
      afterSnapshot = \<lparr>answer = Some \<lparr>snapChips = [], snapInputs = []\<rparr>, took = 0\<rparr>,
      anchoredPage = steadyPage (Some False),
      visiblePage = steadyPage (Some False),
      diagnosticsMs = 0\<rparr>"

text \<open>A document without chips, cards and file inputs.\<close>

definition emptyView :: primingView where
  "emptyView = \<lparr>chipTexts = [], removeCardTexts = [], fileInputs = []\<rparr>"

text \<open>
  A pattern inside the fragment that \<open>parseRegExp\<close> reads: it splits into tokens, and
  every star stands right after an atom.
\<close>

fun starsFollowAtoms :: "token list \<Rightarrow> bool" where
  "starsFollowAtoms [] = True"
| "starsFollowAtoms (TStar # ts) = False"
| "starsFollowAtoms (TAtom a # TStar # ts) = starsFollowAtoms ts"
| "starsFollowAtoms (TAtom a # ts) = starsFollowAtoms ts"

definition wellFormed :: "jsstring \<Rightarrow> bool" where
  "wellFormed pattern = (case tokenize pattern of None \<Rightarrow> False | Some ts \<Rightarrow> starsFollowAtoms ts)"

text \<open>
  A composer that shows the uploaded file \<open>budget-2024-full-report.xlsx\<close> as one chip
  with the truncated text \<open>budget-202\<dots>xlsx\<close>, and an environment of \<open>uploadAttachmentFile\<close>
  with this composer: the document has one file input, the attachment is not there before
  the upload, the tagged input resolves to node 7, after the dispatch the input holds the
  file and the chip is shown, and the two waits evaluate their expressions on the
  composer in every round. Every call is answered at once.
\<close>

definition truncatedChip :: jsstring where
  "truncatedChip = units ''budget-202'' @ [ellipsisChar] @ units ''xlsx''"

definition truncatedChipView :: composerView where
  "truncatedChipView =
     \<lparr>attachmentNodes =
        [\<lparr>textContent = Some truncatedChip, ariaLabel = None, titleAttr = None,
          testId = Some (units ''attachment-chip''), altAttr = None\<rparr>],
      cardInnerTexts = []\<rparr>"

definition truncatedChipEnv :: uploadEnv where
  "truncatedChipEnv =
     \<lparr>domPresent = True,
      basename = posixBasename,
      plusClick = \<lparr>answer = (), took = 0\<rparr>,
      settleLate = 0,
      menuClick = \<lparr>answer = (), took = 0\<rparr>,
      presenceView = \<lparr>answer = \<lparr>chipTexts = [], removeCardTexts = [],
                                 fileInputs = [\<lparr>acceptAttr = None, fileNames = []\<rparr>]\<rparr>,
                      took = 0\<rparr>,
      markView = \<lparr>answer = \<lparr>chipTexts = [], removeCardTexts = [],
                             fileInputs = [\<lparr>acceptAttr = None, fileNames = []\<rparr>]\<rparr>,
                  took = 0\<rparr>,
      getDocumentMs = 0,
      queriedNode = \<lparr>answer = Some 7, took = 0\<rparr>,
      setFilesMs = 0,
      dispatchMs = 0,
      afterSnapshot = \<lparr>answer = Some \<lparr>snapChips = [truncatedChip],
                                         snapInputs = [[units ''budget-2024-full-report.xlsx'']]\<rparr>,
                       took = 0\<rparr>,
      anchoredPage =
        steadyPage (Some (anchoredExpression (toLowerCase (units ''budget-2024-full-report.xlsx''))
                            truncatedChipView)),
      visiblePage =
        steadyPage (Some (visibleExpression (units ''budget-2024-full-report.xlsx'')
                            truncatedChipView)),
      diagnosticsMs = 0\<rparr>"

text \<open>
  A lower-casing that is not unit by unit, for an example of \<open>normalizeNameWith\<close>: as
  the Unicode tables have it, U+0130 becomes the two units U+0069 U+0307 and U+00C9
  becomes U+00E9; the ASCII letters go to lower case, every other unit stays.
\<close>

definition sampleLowerUnit :: "nat \<Rightarrow> jsstring" where
  "sampleLowerUnit c =
     (if c = 304 then [105, 775] else if c = 201 then [233] else [lowerUnit c])"

definition sampleLower :: "jsstring \<Rightarrow> jsstring" where
  "sampleLower s = concat (map sampleLowerUnit s)"

section \<open>Normalisation of names\<close>

lemma lowerUnit_idem: "lowerUnit (lowerUnit c) = lowerUnit c"
  by (simp add: lowerUnit_def)

lemma isWhiteSpace_space: "isWhiteSpace spaceChar"
  by (simp add: isWhiteSpace_def)

lemma lowerUnit_space: "lowerUnit spaceChar = spaceChar"
  by (simp add: lowerUnit_def)

lemma collapse_head:
  "collapseWhitespace (dropWhile isWhiteSpace cs) = [] \<or>
   \<not> isWhiteSpace (hd (collapseWhitespace (dropWhile isWhiteSpace cs)))"
proof (cases "dropWhile isWhiteSpace cs")
  case Nil
  then show ?thesis by (simp only: collapseWhitespace.simps simp_thms)
next
  case (Cons d r)
  then have "\<not> isWhiteSpace d"
    using hd_dropWhile [of isWhiteSpace cs] by simp
  with Cons show ?thesis by simp
qed

lemma wsNormal_Cons_space:
  "wsNormal xs \<Longrightarrow> xs = [] \<or> \<not> isWhiteSpace (hd xs) \<Longrightarrow> wsNormal (spaceChar # xs)"
  by (cases xs) (auto simp: isWhiteSpace_space)

lemma wsNormal_Cons_other:
  "wsNormal xs \<Longrightarrow> \<not> isWhiteSpace c \<Longrightarrow> wsNormal (c # xs)"
  by (cases xs) auto

lemma wsNormal_collapse: "wsNormal (collapseWhitespace s)"
proof (induction s rule: collapseWhitespace.induct)
  case 1
  show ?case by simp
next
  case (2 c cs)
  show ?case
  proof (cases "isWhiteSpace c")
    case True
    with 2 have "wsNormal (collapseWhitespace (dropWhile isWhiteSpace cs))" by simp
    then show ?thesis
      using True collapse_head [of cs] by (simp add: wsNormal_Cons_space)
  next
    case False
    with 2 show ?thesis by (simp add: wsNormal_Cons_other)
  qed
qed

lemma collapse_wsNormal: "wsNormal s \<Longrightarrow> collapseWhitespace s = s"
proof (induction s rule: wsNormal.induct)
  case 1
  show ?case by simp
next
  case (2 c)
  then show ?case by (simp split: if_splits)
next
  case (3 c d r)
  then show ?case by (auto split: if_splits)
qed

lemma wsNormal_append_left: "wsNormal (xs @ ys) \<Longrightarrow> wsNormal xs"
proof (induction xs rule: wsNormal.induct)
  case 1
  show ?case by simp
next
  case (2 c)
  then show ?case by (cases ys) (auto split: if_splits)
next
  case (3 c d r)
  then show ?case by (auto split: if_splits)
qed

lemma wsNormal_append_right: "wsNormal (xs @ ys) \<Longrightarrow> wsNormal ys"
proof (induction xs rule: wsNormal.induct)
  case 1
  then show ?case by simp
next
  case (2 c)
  then show ?case by (cases ys) (auto split: if_splits)
next
  case (3 c d r)
  then show ?case by (auto split: if_splits)
qed

text \<open>Trimming cuts a piece out of the string.\<close>

lemma trim_decomp: "\<exists>pre post. s = pre @ trim s @ post"
proof -
  let ?a = "dropWhile isWhiteSpace s"
  have "s = takeWhile isWhiteSpace s @ ?a" by simp
  moreover have "rev ?a = takeWhile isWhiteSpace (rev ?a) @ dropWhile isWhiteSpace (rev ?a)"
    by simp
  then have "?a = trim s @ rev (takeWhile isWhiteSpace (rev ?a))"
    unfolding trim_def by (metis rev_append rev_rev_ident)
  ultimately have "s = takeWhile isWhiteSpace s @ trim s @ rev (takeWhile isWhiteSpace (rev ?a))"
    by simp
  then show ?thesis by blast
qed

lemma wsNormal_trim:
  assumes "wsNormal s"
  shows "wsNormal (trim s)"
proof -
  obtain pre post where "s = pre @ trim s @ post" using trim_decomp by blast
  with assms have "wsNormal (pre @ trim s @ post)" by simp
  then have "wsNormal (trim s @ post)" by (rule wsNormal_append_right)
  then show ?thesis by (rule wsNormal_append_left)
qed

lemma dropWhile_rev_tail:
  assumes "dropWhile P a = a"
  shows "dropWhile P (rev (dropWhile P (rev a))) = rev (dropWhile P (rev a))"
proof (cases a)
  case Nil
  then show ?thesis by simp
next
  case (Cons x r)
  with assms have nx: "\<not> P x" by (auto split: if_splits) (metis dropWhile_eq_Cons_conv)
  have "\<exists>ys. dropWhile P (rev r @ [x]) = ys @ [x]"
    using nx by (simp add: dropWhile_append)
  then obtain ys where "dropWhile P (rev a) = ys @ [x]" using Cons by auto
  then show ?thesis using nx by simp
qed

lemma trim_idem: "trim (trim s) = trim s"
proof -
  let ?a = "dropWhile isWhiteSpace s"
  have a: "dropWhile isWhiteSpace ?a = ?a" by (simp add: dropWhile_idem)
  have "dropWhile isWhiteSpace (trim s) = trim s"
    unfolding trim_def using dropWhile_rev_tail [OF a] .
  then show ?thesis
    by (simp add: trim_def)
qed

lemma set_collapse: "set (collapseWhitespace s) \<subseteq> insert spaceChar (set s)"
proof (induction s rule: collapseWhitespace.induct)
  case 1
  show ?case by simp
next
  case (2 c cs)
  show ?case
  proof (cases "isWhiteSpace c")
    case True
    with 2 have "set (collapseWhitespace (dropWhile isWhiteSpace cs))
        \<subseteq> insert spaceChar (set (dropWhile isWhiteSpace cs))" by simp
    moreover have "set (dropWhile isWhiteSpace cs) \<subseteq> set cs"
      by (auto dest: set_dropWhileD)
    ultimately show ?thesis using True by auto
  next
    case False
    with 2 show ?thesis by auto
  qed
qed

lemma set_trim: "set (trim s) \<subseteq> set s"
  unfolding trim_def by (auto dest!: set_dropWhileD)

lemma normalizeName_instance: "normalizeName name = normalizeNameWith toLowerCase name"
  by (simp add: normalizeName_def normalizeNameWith_def)

lemma normalizeNameWith_idem:
  assumes collapsed: "\<And>s. lower (collapseWhitespace (lower s)) = collapseWhitespace (lower s)"
    and trimmed: "\<And>s. lower (trim (lower s)) = trim (lower s)"
  shows "normalizeNameWith lower (normalizeNameWith lower s) = normalizeNameWith lower s"
proof -
  let ?c = "collapseWhitespace (lower s)"
  let ?n = "trim ?c"
  have c: "lower ?c = ?c" by (rule collapsed)
  have "lower (trim (lower ?c)) = trim (lower ?c)" by (rule trimmed)
  then have n: "lower ?n = ?n" by (simp only: c)
  have "wsNormal ?n" by (simp add: wsNormal_trim wsNormal_collapse)
  then have "collapseWhitespace ?n = ?n" by (rule collapse_wsNormal)
  then have "trim (collapseWhitespace (lower ?n)) = trim ?n" by (simp only: n)
  also have "\<dots> = ?n" by (rule trim_idem)
  finally show ?thesis by (simp only: normalizeNameWith_def)
qed

lemma concat_fixed:
  "(\<forall>d \<in> set xs. f d = [d]) \<Longrightarrow> concat (map f xs) = xs"
  by (induction xs) auto

lemma sampleLowerUnit_fixed: "d \<in> set (sampleLowerUnit c) \<Longrightarrow> sampleLowerUnit d = [d]"
  by (auto simp: sampleLowerUnit_def lowerUnit_def split: if_splits)

lemma sampleLower_units_fixed: "d \<in> set (sampleLower s) \<Longrightarrow> sampleLowerUnit d = [d]"
  by (auto simp: sampleLower_def sampleLowerUnit_fixed)

lemma sampleLowerUnit_space: "sampleLowerUnit spaceChar = [spaceChar]"
  by (simp add: sampleLowerUnit_def lowerUnit_def)

lemma sampleLower_fixed: "(\<forall>d \<in> set t. sampleLowerUnit d = [d]) \<Longrightarrow> sampleLower t = t"
  unfolding sampleLower_def by (rule concat_fixed)

lemma sampleLower_collapsed:
  "sampleLower (collapseWhitespace (sampleLower s)) = collapseWhitespace (sampleLower s)"
proof (rule sampleLower_fixed, rule ballI)
  fix d assume "d \<in> set (collapseWhitespace (sampleLower s))"
  then have "d = spaceChar \<or> d \<in> set (sampleLower s)" using set_collapse by blast
  then show "sampleLowerUnit d = [d]"
    using sampleLowerUnit_space sampleLower_units_fixed by blast
qed

lemma sampleLower_trimmed:
  "sampleLower (trim (sampleLower s)) = trim (sampleLower s)"
proof (rule sampleLower_fixed, rule ballI)
  fix d assume "d \<in> set (trim (sampleLower s))"
  then have "d \<in> set (sampleLower s)" using set_trim by blast
  then show "sampleLowerUnit d = [d]" by (rule sampleLower_units_fixed)
qed

lemma toLowerCase_collapsed:
  "toLowerCase (collapseWhitespace (toLowerCase s)) = collapseWhitespace (toLowerCase s)"
proof -
  have "\<forall>c \<in> set (collapseWhitespace (toLowerCase s)). lowerUnit c = c"
  proof
    fix c assume "c \<in> set (collapseWhitespace (toLowerCase s))"
    then have "c = spaceChar \<or> c \<in> set (toLowerCase s)" using set_collapse by blast
    then show "lowerUnit c = c"
      by (auto simp: toLowerCase_def lowerUnit_space lowerUnit_idem)
  qed
  then show ?thesis unfolding toLowerCase_def [of "collapseWhitespace (toLowerCase s)"]
    by (simp add: map_idI)
qed

lemma toLowerCase_trimmed: "toLowerCase (trim (toLowerCase s)) = trim (toLowerCase s)"
proof -
  have "\<forall>c \<in> set (trim (toLowerCase s)). lowerUnit c = c"
  proof
    fix c assume "c \<in> set (trim (toLowerCase s))"
    then have "c \<in> set (toLowerCase s)" using set_trim by blast
    then show "lowerUnit c = c" by (auto simp: toLowerCase_def lowerUnit_idem)
  qed
  then show ?thesis unfolding toLowerCase_def [of "trim (toLowerCase s)"]
    by (simp add: map_idI)
qed

text \<open>
  Claim C8. The normalisation of names (lower case, every run of white space collapsed
  to one space, trimmed) is idempotent: normalising a normalised name changes nothing.
  The lower-casing is \<open>String.prototype.toLowerCase\<close> of the engine; it is the parameter
  \<open>lower\<close>, and two properties of it are the hypotheses: lower-casing leaves as it is
  what collapsing the white space makes of a lower-cased string, and what trimming makes
  of one. Unicode lower-casing has both: no character of a lower-cased string has a
  lower case of its own, no white space has one, and the one rule that looks at the
  neighbours of a character is for the capital sigma, which a lower-cased string does
  not have. Nothing is asked of the shape of \<open>lower\<close>: it need not map unit by unit nor
  keep the length.
\<close>

theorem normalization_idempotent:
  assumes "\<And>s. lower (collapseWhitespace (lower s)) = collapseWhitespace (lower s)"
    and "\<And>s. lower (trim (lower s)) = trim (lower s)"
  shows "normalizeNameWith lower (normalizeNameWith lower s) = normalizeNameWith lower s"
  using assms by (rule normalizeNameWith_idem)

text \<open>
  Two instances. \<open>sampleLower\<close>, which lengthens the string, has the two properties, and
  the name U+0020 U+0130 U+0009 U+0009 U+00C9 \<open>A\<close> U+0020 is normalised to U+0069
  U+0307 U+0020 U+00E9 \<open>a\<close>, which is normalised to itself. \<open>toLowerCase\<close> has them too,
  so \<open>normalizeName\<close> is idempotent.
\<close>

lemmas sample_eval = normalizeNameWith_def sampleLower_def sampleLowerUnit_def lowerUnit_def
  trim_def isWhiteSpace_def

theorem normalization_idempotent_witness:
  "(\<forall>s. sampleLower (collapseWhitespace (sampleLower s)) = collapseWhitespace (sampleLower s))
   \<and> (\<forall>s. sampleLower (trim (sampleLower s)) = trim (sampleLower s))
   \<and> normalizeNameWith sampleLower [32, 304, 9, 9, 201, 65, 32] = [105, 775, 32, 233, 97]
   \<and> normalizeNameWith sampleLower [105, 775, 32, 233, 97] = [105, 775, 32, 233, 97]
   \<and> (\<forall>s. toLowerCase (collapseWhitespace (toLowerCase s)) = collapseWhitespace (toLowerCase s))
   \<and> (\<forall>s. toLowerCase (trim (toLowerCase s)) = trim (toLowerCase s))
   \<and> (\<forall>s. normalizeName (normalizeName s) = normalizeName s)"
proof -
  have n1: "normalizeNameWith sampleLower [32, 304, 9, 9, 201, 65, 32] = [105, 775, 32, 233, 97]"
    by (simp add: sample_eval)
  have wide: "normalizeNameWith sampleLower (normalizeNameWith sampleLower [32, 304, 9, 9, 201, 65, 32])
              = normalizeNameWith sampleLower [32, 304, 9, 9, 201, 65, 32]"
    using normalization_idempotent [of sampleLower "[32, 304, 9, 9, 201, 65, 32]"]
    by (simp only: sampleLower_collapsed sampleLower_trimmed)
  have ascii: "normalizeName (normalizeName s) = normalizeName s" for s
    using normalization_idempotent [of toLowerCase s]
    by (simp only: toLowerCase_collapsed toLowerCase_trimmed normalizeName_instance)
  show ?thesis
    using wide ascii n1
    by (simp only: sampleLower_collapsed sampleLower_trimmed toLowerCase_collapsed
        toLowerCase_trimmed simp_thms)
qed

section \<open>The matching rules\<close>

lemma startsWith_iff: "startsWith s p \<longleftrightarrow> (\<exists>r. s = p @ r)"
  by (induction s p rule: startsWith.induct) auto

lemma jsIncludes_iff: "jsIncludes s t \<longleftrightarrow> (\<exists>pre post. s = pre @ t @ post)"
proof (induction s)
  case Nil
  show ?case by auto
next
  case (Cons c cs)
  show ?case
  proof
    assume "jsIncludes (c # cs) t"
    then consider "startsWith (c # cs) t" | "jsIncludes cs t" by auto
    then show "\<exists>pre post. c # cs = pre @ t @ post"
    proof cases
      case 1
      then obtain r where "c # cs = t @ r" using startsWith_iff by blast
      then have "c # cs = [] @ t @ r" by simp
      then show ?thesis by blast
    next
      case 2
      then obtain pre post where "cs = pre @ t @ post" using Cons.IH by blast
      then have "c # cs = (c # pre) @ t @ post" by simp
      then show ?thesis by blast
    qed
  next
    assume "\<exists>pre post. c # cs = pre @ t @ post"
    then obtain pre post where e: "c # cs = pre @ t @ post" by blast
    show "jsIncludes (c # cs) t"
    proof (cases pre)
      case Nil
      with e have "startsWith (c # cs) t" using startsWith_iff by auto
      then show ?thesis by simp
    next
      case (Cons p pre')
      with e have "cs = pre' @ t @ post" by simp
      then have "jsIncludes cs t" using Cons.IH by blast
      then show ?thesis by simp
    qed
  qed
qed

lemma not_isAlnum_dot: "\<not> isAlnum dotChar"
  by (simp add: isAlnum_def)

lemma stripExtension_strips:
  assumes "1 \<le> length ext" "length ext \<le> 10" "list_all isAlnum ext"
  shows "stripExtension (stem @ dotChar # ext) = stem"
  using assms by (induction stem) (auto simp: not_isAlnum_dot)

lemma stripExtension_keeps:
  assumes "\<not> (\<exists>stem ext. s = stem @ dotChar # ext \<and> 1 \<le> length ext \<and> length ext \<le> 10
                 \<and> list_all isAlnum ext)"
  shows "stripExtension s = s"
  using assms
proof (induction s)
  case Nil
  show ?case by simp
next
  case (Cons c cs)
  have here: "\<not> (c = dotChar \<and> 1 \<le> length cs \<and> length cs \<le> 10 \<and> list_all isAlnum cs)"
  proof
    assume "c = dotChar \<and> 1 \<le> length cs \<and> length cs \<le> 10 \<and> list_all isAlnum cs"
    then have "c # cs = [] @ dotChar # cs \<and> 1 \<le> length cs \<and> length cs \<le> 10
                 \<and> list_all isAlnum cs" by simp
    with Cons.prems show False by blast
  qed
  have "\<not> (\<exists>stem ext. cs = stem @ dotChar # ext \<and> 1 \<le> length ext \<and> length ext \<le> 10
                 \<and> list_all isAlnum ext)"
  proof
    assume "\<exists>stem ext. cs = stem @ dotChar # ext \<and> 1 \<le> length ext \<and> length ext \<le> 10
                 \<and> list_all isAlnum ext"
    then obtain stem ext where "cs = stem @ dotChar # ext" "1 \<le> length ext" "length ext \<le> 10"
      "list_all isAlnum ext" by blast
    then have "c # cs = (c # stem) @ dotChar # ext \<and> 1 \<le> length ext \<and> length ext \<le> 10
                 \<and> list_all isAlnum ext" by simp
    with Cons.prems show False by blast
  qed
  then have "stripExtension cs = cs" by (rule Cons.IH)
  with here show ?case by auto
qed

lemma matchesExpected_plain:
  assumes "list_all (\<lambda>raw. \<not> hasEllipsisMarker raw) names"
  shows "matchesExpected names expected =
         list_ex (\<lambda>raw. substringOrStem raw (normalizeName (baseNameOf expected))) names"
  using assms
  unfolding matchesExpected_def Let_def
  by (induction names) (auto simp: hasEllipsisMarker_def substringOrStem_def)

lemma matchesExpectedAnchored_plain:
  assumes "\<not> hasEllipsisMarker (toLowerCase v)"
  shows "matchesExpectedAnchored normalized v =
         (toLowerCase v \<noteq> [] \<and> substringOrStem (toLowerCase v) normalized)"
  using assms
  unfolding matchesExpectedAnchored_def Let_def
  by (auto simp: hasEllipsisMarker_def substringOrStem_def)

lemma matchesExpected_stem:
  assumes "raw \<in> set names"
    and "6 \<le> length (stripExtension (normalizeName (baseNameOf expected)))"
    and "jsIncludes raw (stripExtension (normalizeName (baseNameOf expected)))"
  shows "matchesExpected names expected"
  using assms unfolding matchesExpected_def Let_def list_ex_iff by auto

lemma matchesExpectedAnchored_stem:
  assumes "6 \<le> length (stripExtension normalized)"
    and "jsIncludes (toLowerCase v) (stripExtension normalized)"
  shows "matchesExpectedAnchored normalized v"
proof -
  have "toLowerCase v \<noteq> []" using assms by (cases "toLowerCase v") auto
  then show ?thesis
    using assms unfolding matchesExpectedAnchored_def Let_def by auto
qed

lemmas match_eval =
  units_def normalizeName_def trim_def toLowerCase_def lowerUnit_def isWhiteSpace_def
  baseNameOf_def afterLast_def isAlnum_def isRegexSpecial_def escapeSpecials_def parseRegExp_def
  isLineTerminator_def matchesExpected_def matchesExpectedAnchored_def matchNode_def
  userTurnMissing_def orEmpty_def completionMatch_def anchoredMatch_def visibleMatch_def
  userTurnMatch_def hasEllipsisMarker_def Let_def

section \<open>The patterns of the ellipsis rule\<close>

lemma pieces_total: "starsFollowAtoms ts \<Longrightarrow> pieces ts \<noteq> None"
  by (induction ts rule: starsFollowAtoms.induct) auto

lemma wellFormed_parses:
  assumes "wellFormed pattern"
  shows "parseRegExp pattern \<noteq> None"
proof -
  from assms obtain ts where ts: "tokenize pattern = Some ts" "starsFollowAtoms ts"
    by (auto simp: wellFormed_def split: option.splits)
  then have "pieces ts \<noteq> None" by (simp add: pieces_total)
  with ts(1) show ?thesis by (simp add: parseRegExp_def)
qed

lemma starsFollowAtoms_atom: "starsFollowAtoms ts \<Longrightarrow> starsFollowAtoms (TAtom a # ts)"
  by (cases ts rule: starsFollowAtoms.cases) auto

lemma special_consts:
  "isRegexSpecial dotChar" "isRegexSpecial starChar" "isRegexSpecial backslashChar"
  "\<not> isRegexSpecial ellipsisChar"
  by (simp_all add: isRegexSpecial_def)

lemma wellFormed_Nil: "wellFormed []"
  by (simp add: wellFormed_def)

lemma wellFormed_plain:
  assumes "\<not> isRegexSpecial c" "wellFormed s"
  shows "wellFormed (c # s)"
proof -
  have c: "c \<noteq> backslashChar" "c \<noteq> dotChar" "c \<noteq> starChar"
    using assms(1) special_consts by auto
  from assms(2) obtain ts where ts: "tokenize s = Some ts" "starsFollowAtoms ts"
    by (auto simp: wellFormed_def split: option.splits)
  have "tokenize (c # s) = Some (TAtom (Lit c) # ts)"
    using c assms(1) ts(1) by (cases s) auto
  then show ?thesis using ts(2) by (simp add: wellFormed_def starsFollowAtoms_atom)
qed

lemma wellFormed_escaped:
  assumes "isRegexSpecial d" "wellFormed s"
  shows "wellFormed (backslashChar # d # s)"
proof -
  from assms(2) obtain ts where ts: "tokenize s = Some ts" "starsFollowAtoms ts"
    by (auto simp: wellFormed_def split: option.splits)
  have "tokenize (backslashChar # d # s) = Some (TAtom (Lit d) # ts)"
    using assms(1) ts(1) by simp
  then show ?thesis using ts(2) by (simp add: wellFormed_def starsFollowAtoms_atom)
qed

lemma tokenize_star:
  assumes "tokenize s = Some ts"
  shows "tokenize (starChar # s) = Some (TStar # ts)"
  using assms by (cases s) auto

lemma wellFormed_wildcard:
  assumes "wellFormed s"
  shows "wellFormed (dotChar # starChar # s)"
proof -
  from assms obtain ts where ts: "tokenize s = Some ts" "starsFollowAtoms ts"
    by (auto simp: wellFormed_def split: option.splits)
  have "tokenize (dotChar # starChar # s) = Some (TAtom AnyChar # TStar # ts)"
    using tokenize_star [OF ts(1)] by simp
  then show ?thesis using ts(2) by (simp add: wellFormed_def)
qed

lemma wellFormed_escaped_dot_star:
  assumes "wellFormed s"
  shows "wellFormed (backslashChar # dotChar # starChar # s)"
proof -
  from assms obtain ts where ts: "tokenize s = Some ts" "starsFollowAtoms ts"
    by (auto simp: wellFormed_def split: option.splits)
  have "tokenize (backslashChar # dotChar # starChar # s) = Some (TAtom (Lit dotChar) # TStar # ts)"
    using tokenize_star [OF ts(1)] special_consts(1) by simp
  then show ?thesis using ts(2) by (simp add: wellFormed_def)
qed

lemma escapeSpecials_Nil: "escapeSpecials [] = []"
  by (simp add: escapeSpecials_def)

lemma escapeSpecials_Cons:
  "escapeSpecials (c # cs) =
     (if isRegexSpecial c then backslashChar # c # escapeSpecials cs else c # escapeSpecials cs)"
  by (simp add: escapeSpecials_def)

text \<open>An escaped string begins with a plain unit or with a backslash.\<close>

lemma escapeSpecials_head:
  "escapeSpecials cs = x # r \<Longrightarrow> x = backslashChar \<or> \<not> isRegexSpecial x"
  by (cases cs) (auto simp: escapeSpecials_Nil escapeSpecials_Cons split: if_splits)

lemma escapeSpecials_head_plain:
  assumes "escapeSpecials cs = x # r" "\<not> isRegexSpecial x"
  shows "\<exists>cs'. cs = x # cs' \<and> r = escapeSpecials cs'"
  using assms special_consts(3) by (cases cs) (auto simp: escapeSpecials_Nil escapeSpecials_Cons split: if_splits)

lemma escapeSpecials_head_escaped:
  assumes "escapeSpecials cs = backslashChar # r"
  shows "\<exists>d cs'. cs = d # cs' \<and> isRegexSpecial d \<and> r = d # escapeSpecials cs'"
  using assms special_consts(3) by (cases cs) (auto simp: escapeSpecials_Nil escapeSpecials_Cons split: if_splits)

lemma replace_plain:
  assumes "c \<noteq> backslashChar"
  shows "replaceEscapedEllipsis (c # s) = c # replaceEscapedEllipsis s"
  using assms by simp


lemma replace_escaped_ellipsis:
  "replaceEscapedEllipsis (backslashChar # ellipsisChar # s)
   = dotChar # starChar # replaceEscapedEllipsis s"
  by simp

lemma replace_escaped_dots:
  "replaceEscapedEllipsis
     (backslashChar # dotChar # backslashChar # dotChar # backslashChar # dotChar # s)
   = dotChar # starChar # replaceEscapedEllipsis s"
  by simp

lemma replace_backslash_other:
  assumes "\<not> startsWith s [ellipsisChar]"
    and "\<not> startsWith s [dotChar, backslashChar, dotChar, backslashChar, dotChar]"
  shows "replaceEscapedEllipsis (backslashChar # s) = backslashChar # replaceEscapedEllipsis s"
  using assms by (cases s) auto

lemma startsWith_Cons: "startsWith (c # s) (p # ps) = (c = p \<and> startsWith s ps)"
  by simp

text \<open>
  The pattern of \<open>waitForAttachmentCompletion\<close> is inside the fragment, whatever the text.
\<close>

lemma completion_pattern_wellFormed:
  "wellFormed (replaceEscapedEllipsis (escapeSpecials raw))"
proof (induction raw rule: length_induct)
  case (1 raw)
  show ?case
  proof (cases raw)
    case Nil
    then show ?thesis by (simp add: escapeSpecials_Nil wellFormed_Nil)
  next
    case (Cons c cs)
    have ih: "wellFormed (replaceEscapedEllipsis (escapeSpecials ys))"
      if "length ys \<le> length cs" for ys
      using 1 Cons that by simp
    show ?thesis
    proof (cases "isRegexSpecial c")
      case False
      then have "c \<noteq> backslashChar" using special_consts(3) by auto
      then have "replaceEscapedEllipsis (escapeSpecials raw)
                 = c # replaceEscapedEllipsis (escapeSpecials cs)"
        using Cons False by (simp add: escapeSpecials_Cons)
      then show ?thesis using False ih [of cs] by (simp add: wellFormed_plain)
    next
      case True
      then have e: "escapeSpecials raw = backslashChar # c # escapeSpecials cs"
        using Cons by (simp add: escapeSpecials_Cons)
      have c_not_ell: "c \<noteq> ellipsisChar" using True special_consts(4) by auto
      show ?thesis
      proof (cases "startsWith (c # escapeSpecials cs)
                      [dotChar, backslashChar, dotChar, backslashChar, dotChar]")
        case True
        then have c: "c = dotChar"
          and r: "startsWith (escapeSpecials cs) [backslashChar, dotChar, backslashChar, dotChar]"
          by simp_all
        from r obtain r1 where r1: "escapeSpecials cs = backslashChar # r1"
          by (cases "escapeSpecials cs") auto
        then obtain d1 cs1 where cs: "cs = d1 # cs1" "r1 = d1 # escapeSpecials cs1"
          using escapeSpecials_head_escaped by blast
        with r r1 have d1: "d1 = dotChar"
          and r': "startsWith (escapeSpecials cs1) [backslashChar, dotChar]" by simp_all
        from r' obtain r2 where r2: "escapeSpecials cs1 = backslashChar # r2"
          by (cases "escapeSpecials cs1") auto
        then obtain d2 cs2 where cs1: "cs1 = d2 # cs2" "r2 = d2 # escapeSpecials cs2"
          using escapeSpecials_head_escaped by blast
        with r' r2 have d2: "d2 = dotChar" by simp
        have "escapeSpecials raw
              = backslashChar # dotChar # backslashChar # dotChar # backslashChar # dotChar
                # escapeSpecials cs2"
          using e c r1 cs d1 r2 cs1 d2 by simp
        then have "replaceEscapedEllipsis (escapeSpecials raw)
              = dotChar # starChar # replaceEscapedEllipsis (escapeSpecials cs2)"
          by (simp only: replace_escaped_dots)
        moreover have "length cs2 \<le> length cs" using cs cs1 by simp
        ultimately show ?thesis using ih [of cs2] by (simp add: wellFormed_wildcard)
      next
        case nodots: False
        have first: "replaceEscapedEllipsis (escapeSpecials raw)
              = backslashChar # replaceEscapedEllipsis (c # escapeSpecials cs)"
          unfolding e using nodots c_not_ell
          by (intro replace_backslash_other) simp_all
        show ?thesis
        proof (cases "c = backslashChar \<and> startsWith (escapeSpecials cs) [ellipsisChar]")
          case True
          then obtain r where r: "escapeSpecials cs = ellipsisChar # r"
            by (cases "escapeSpecials cs") auto
          then obtain cs' where cs': "cs = ellipsisChar # cs'" "r = escapeSpecials cs'"
            using escapeSpecials_head_plain special_consts(4) by blast
          have "replaceEscapedEllipsis (c # escapeSpecials cs)
                = dotChar # starChar # replaceEscapedEllipsis (escapeSpecials cs')"
            using True r cs' by (simp only: replace_escaped_ellipsis)
          moreover have "length cs' \<le> length cs" using cs' by simp
          ultimately show ?thesis
            using first ih [of cs'] by (simp add: wellFormed_escaped_dot_star)
        next
          case False
          have second: "replaceEscapedEllipsis (c # escapeSpecials cs)
                = c # replaceEscapedEllipsis (escapeSpecials cs)"
          proof (cases "c = backslashChar")
            case bs: True
            have "\<not> startsWith (escapeSpecials cs) [ellipsisChar]" using False bs by simp
            moreover have "\<not> startsWith (escapeSpecials cs)
                               [dotChar, backslashChar, dotChar, backslashChar, dotChar]"
            proof
              assume "startsWith (escapeSpecials cs)
                        [dotChar, backslashChar, dotChar, backslashChar, dotChar]"
              then obtain r where "escapeSpecials cs = dotChar # r"
                by (cases "escapeSpecials cs") auto
              then show False using escapeSpecials_head special_consts(1) by fastforce
            qed
            ultimately show ?thesis unfolding bs by (rule replace_backslash_other)
          next
            case False
            then show ?thesis by (rule replace_plain)
          qed
          show ?thesis
            using first second True ih [of cs] by (simp add: wellFormed_escaped)
        qed
      qed
    qed
  qed
qed


text \<open>
  In \<open>waitForAttachmentCompletion\<close> a text without backslash and without dot keeps every
  \<open>\<dots>\<close> it has: the pattern is the escaped text, with no wildcard in it.
\<close>

lemma completion_pattern_without_wildcard:
  assumes "backslashChar \<notin> set raw" "dotChar \<notin> set raw"
  shows "replaceEscapedEllipsis (escapeSpecials raw) = escapeSpecials raw"
  using assms
proof (induction raw)
  case Nil
  show ?case by (simp add: escapeSpecials_Nil)
next
  case (Cons c cs)
  then have ih: "replaceEscapedEllipsis (escapeSpecials cs) = escapeSpecials cs"
    and c: "c \<noteq> backslashChar" "c \<noteq> dotChar" by simp_all
  show ?case
  proof (cases "isRegexSpecial c")
    case False
    then show ?thesis using c ih by (simp add: escapeSpecials_Cons)
  next
    case True
    then have "c \<noteq> ellipsisChar" using special_consts(4) by auto
    then show ?thesis using True c ih by (simp add: escapeSpecials_Cons)
  qed
qed

text \<open>
  The first \<open>replaceAll\<close> of \<open>waitForAttachmentAnchored\<close> on the escaped text, unit by unit.
\<close>

lemma anchored_wildcards_Nil:
  "replaceAll [ellipsisChar] [dotChar, starChar] (escapeSpecials []) = []"
  by (simp add: escapeSpecials_Nil)

lemma anchored_wildcards_Cons:
  "replaceAll [ellipsisChar] [dotChar, starChar] (escapeSpecials (c # cs)) =
     (if c = ellipsisChar
      then dotChar # starChar # replaceAll [ellipsisChar] [dotChar, starChar] (escapeSpecials cs)
      else if isRegexSpecial c
      then backslashChar # c # replaceAll [ellipsisChar] [dotChar, starChar] (escapeSpecials cs)
      else c # replaceAll [ellipsisChar] [dotChar, starChar] (escapeSpecials cs))"
  using special_consts(4) by (auto simp: escapeSpecials_Cons)

lemma anchored_wildcards_wellFormed:
  "wellFormed (replaceAll [ellipsisChar] [dotChar, starChar] (escapeSpecials shown))"
proof (induction shown)
  case Nil
  show ?case by (simp add: escapeSpecials_Nil wellFormed_Nil)
next
  case (Cons c cs)
  then show ?case
    unfolding anchored_wildcards_Cons
    by (simp add: wellFormed_wildcard wellFormed_escaped wellFormed_plain)
qed

lemma anchored_wildcards_head:
  "\<not> startsWith (replaceAll [ellipsisChar] [dotChar, starChar] (escapeSpecials shown))
       [dotChar, dotChar]"
proof (cases shown)
  case Nil
  then show ?thesis by (simp add: escapeSpecials_Nil)
next
  case (Cons c cs)
  show ?thesis
    unfolding Cons anchored_wildcards_Cons using special_consts(1) by auto
qed

lemma anchored_wildcards_no_dots:
  "\<not> jsIncludes (replaceAll [ellipsisChar] [dotChar, starChar] (escapeSpecials shown))
       [dotChar, dotChar, dotChar]"
proof (induction shown)
  case Nil
  show ?case by (simp add: escapeSpecials_Nil)
next
  case (Cons c cs)
  show ?case
    unfolding anchored_wildcards_Cons
    using Cons anchored_wildcards_head [of cs] special_consts(1) by auto
qed

lemma replaceAll_absent: "\<not> jsIncludes s pat \<Longrightarrow> replaceAll pat rep s = s"
  by (induction s) auto

text \<open>
  The second \<open>replaceAll\<close> of \<open>waitForAttachmentAnchored\<close> never finds three dots, since the
  dots of the shown were escaped before: three dots of the shown stay three literal dots
  of the pattern.
\<close>

lemma anchored_pattern_keeps_dots:
  "replaceAll [dotChar, dotChar, dotChar] [dotChar, starChar]
     (replaceAll [ellipsisChar] [dotChar, starChar] (escapeSpecials shown))
   = replaceAll [ellipsisChar] [dotChar, starChar] (escapeSpecials shown)"
  by (rule replaceAll_absent) (rule anchored_wildcards_no_dots)

text \<open>The pattern of \<open>waitForAttachmentAnchored\<close> is inside the fragment, whatever the shown.\<close>

lemma anchored_pattern_wellFormed:
  "wellFormed (replaceAll [dotChar, dotChar, dotChar] [dotChar, starChar]
                 (replaceAll [ellipsisChar] [dotChar, starChar] (escapeSpecials shown)))"
  by (simp only: anchored_pattern_keeps_dots anchored_wildcards_wellFormed)

text \<open>
  So \<open>new RegExp(pattern)\<close> throws in neither matcher, and the model loses nothing by
  reading only the fragment.
\<close>

lemma patterns_parse:
  "parseRegExp (replaceEscapedEllipsis (escapeSpecials raw)) \<noteq> None"
  "parseRegExp (replaceAll [dotChar, dotChar, dotChar] [dotChar, starChar]
                 (replaceAll [ellipsisChar] [dotChar, starChar] (escapeSpecials shown))) \<noteq> None"
  by (simp_all only: wellFormed_parses completion_pattern_wellFormed anchored_pattern_wellFormed
      not_False_eq_True)

section \<open>The stem rule and the ellipsis rule\<close>

lemma report_csv_completion: "completionMatch (units ''report'') (units ''report.csv'')"
  by (simp add: match_eval)

lemma report_csv_anchored: "anchoredMatch (units ''report'') (units ''report.csv'')"
  by (simp add: match_eval)

lemma img_png_completion: "\<not> completionMatch (units ''img'') (units ''img.png'')"
  by (simp add: match_eval)

lemma img_png_anchored: "\<not> anchoredMatch (units ''img'') (units ''img.png'')"
  by (simp add: match_eval)

text \<open>
  Claim C6. The rule of the stem without extension, in \<open>matchesExpected\<close> of
  \<open>waitForAttachmentCompletion\<close> and of \<open>waitForAttachmentAnchored\<close>. A final dot with one to
  ten alphanumeric units after it is cut from the expected name, and a name without
  such an ending is left as it is. A text that contains
  the stem matches whenever the stem has six units or more; and for a text without an
  ellipsis marker the matcher says yes exactly when the text contains the name, or the
  stem has six units or more and the text contains the stem. So \<open>report\<close> matches
  \<open>report.csv\<close> (stem \<open>report\<close>, six units), and \<open>img\<close> does not match \<open>img.png\<close> (stem
  \<open>img\<close>, three units), though the stem is in the text.
\<close>

theorem extension_stripped_matching:
  "(1 \<le> length ext \<and> length ext \<le> 10 \<and> list_all isAlnum ext
      \<longrightarrow> stripExtension (stem @ dotChar # ext) = stem)
   \<and> (\<not> (\<exists>stem ext. name = stem @ dotChar # ext \<and> 1 \<le> length ext \<and> length ext \<le> 10
                 \<and> list_all isAlnum ext)
      \<longrightarrow> stripExtension name = name)
   \<and> (raw \<in> set names
        \<and> 6 \<le> length (stripExtension (normalizeName (baseNameOf expected)))
        \<and> jsIncludes raw (stripExtension (normalizeName (baseNameOf expected)))
      \<longrightarrow> matchesExpected names expected)
   \<and> (list_all (\<lambda>raw. \<not> hasEllipsisMarker raw) names
      \<longrightarrow> matchesExpected names expected =
          list_ex (\<lambda>raw. jsIncludes raw (normalizeName (baseNameOf expected))
                     \<or> (6 \<le> length (stripExtension (normalizeName (baseNameOf expected)))
                         \<and> jsIncludes raw
                              (stripExtension (normalizeName (baseNameOf expected)))))
            names)
   \<and> (6 \<le> length (stripExtension normalized)
        \<and> jsIncludes (toLowerCase v) (stripExtension normalized)
      \<longrightarrow> matchesExpectedAnchored normalized v)
   \<and> (\<not> hasEllipsisMarker (toLowerCase v)
      \<longrightarrow> matchesExpectedAnchored normalized v =
          (toLowerCase v \<noteq> []
           \<and> (jsIncludes (toLowerCase v) normalized
                \<or> (6 \<le> length (stripExtension normalized)
                    \<and> jsIncludes (toLowerCase v) (stripExtension normalized)))))
   \<and> completionMatch (units ''report'') (units ''report.csv'')
   \<and> anchoredMatch (units ''report'') (units ''report.csv'')
   \<and> \<not> completionMatch (units ''img'') (units ''img.png'')
   \<and> \<not> anchoredMatch (units ''img'') (units ''img.png'')"
proof -
  have strip: "1 \<le> length ext \<and> length ext \<le> 10 \<and> list_all isAlnum ext
      \<longrightarrow> stripExtension (stem @ dotChar # ext) = stem"
    by (simp add: stripExtension_strips)
  have keep: "\<not> (\<exists>stem ext. name = stem @ dotChar # ext \<and> 1 \<le> length ext \<and> length ext \<le> 10
                 \<and> list_all isAlnum ext)
      \<longrightarrow> stripExtension name = name"
    using stripExtension_keeps [of name] by blast
  have c1: "raw \<in> set names
        \<and> 6 \<le> length (stripExtension (normalizeName (baseNameOf expected)))
        \<and> jsIncludes raw (stripExtension (normalizeName (baseNameOf expected)))
      \<longrightarrow> matchesExpected names expected"
    using matchesExpected_stem by blast
  have c2: "list_all (\<lambda>raw. \<not> hasEllipsisMarker raw) names
      \<longrightarrow> matchesExpected names expected =
          list_ex (\<lambda>raw. jsIncludes raw (normalizeName (baseNameOf expected))
                     \<or> (6 \<le> length (stripExtension (normalizeName (baseNameOf expected)))
                         \<and> jsIncludes raw
                              (stripExtension (normalizeName (baseNameOf expected)))))
            names"
    using matchesExpected_plain [of names expected] by (simp add: substringOrStem_def)
  have a1: "6 \<le> length (stripExtension normalized)
        \<and> jsIncludes (toLowerCase v) (stripExtension normalized)
      \<longrightarrow> matchesExpectedAnchored normalized v"
    using matchesExpectedAnchored_stem by blast
  have a2: "\<not> hasEllipsisMarker (toLowerCase v)
      \<longrightarrow> matchesExpectedAnchored normalized v =
          (toLowerCase v \<noteq> []
           \<and> (jsIncludes (toLowerCase v) normalized
                \<or> (6 \<le> length (stripExtension normalized)
                    \<and> jsIncludes (toLowerCase v) (stripExtension normalized))))"
    using matchesExpectedAnchored_plain [of v normalized] by (simp add: substringOrStem_def)
  show ?thesis
    using strip keep c1 c2 a1 a2 report_csv_completion report_csv_anchored img_png_completion
      img_png_anchored
    by blast
qed

theorem extension_stripped_matching_witness:
  "stripExtension (units ''report.csv'') = units ''report''
   \<and> \<not> (\<exists>stem ext. units ''report'' = stem @ dotChar # ext \<and> 1 \<le> length ext
             \<and> length ext \<le> 10 \<and> list_all isAlnum ext)
   \<and> stripExtension (units ''report'') = units ''report''
   \<and> units ''report'' \<in> set [units ''report'']
   \<and> 6 \<le> length (stripExtension (normalizeName (baseNameOf (units ''report.csv''))))
   \<and> jsIncludes (units ''report'') (stripExtension (normalizeName (baseNameOf (units ''report.csv''))))
   \<and> list_all (\<lambda>raw. \<not> hasEllipsisMarker raw) [units ''report'']
   \<and> \<not> hasEllipsisMarker (toLowerCase (units ''report''))
   \<and> matchesExpected [units ''report''] (units ''report.csv'')
   \<and> matchesExpectedAnchored (units ''report.csv'') (units ''report'')"
proof -
  have nodot: "\<not> (\<exists>stem ext. units ''report'' = stem @ dotChar # ext \<and> 1 \<le> length ext
             \<and> length ext \<le> 10 \<and> list_all isAlnum ext)"
  proof
    assume "\<exists>stem ext. units ''report'' = stem @ dotChar # ext \<and> 1 \<le> length ext
             \<and> length ext \<le> 10 \<and> list_all isAlnum ext"
    then obtain stem ext where "units ''report'' = stem @ dotChar # ext" by blast
    then have "dotChar \<in> set (units ''report'')" by simp
    then show False by (simp add: units_def)
  qed
  show ?thesis
    using extension_stripped_matching [where ext = "units ''csv''" and stem = "units ''report''"
        and name = "units ''report''" and raw = "units ''report''"
        and names = "[units ''report'']" and expected = "units ''report.csv''"
        and normalized = "units ''report.csv''" and v = "units ''report''"]
      nodot
    by (simp add: match_eval)
qed

text \<open>
  Claim C1. The ellipsis rule is to turn every ellipsis marker of the displayed text,
  the unit \<open>\<dots>\<close> as well as three dots, into a wildcard, so that \<open>budget-202\<dots>xlsx\<close>
  matches \<open>budget-2024-full-report.xlsx\<close>. Evaluated on the code: \<open>matchesExpected\<close> of
  \<open>waitForAttachmentCompletion\<close> rejects that text, since its second \<open>replace\<close> looks for
  a backslash before the \<open>\<dots>\<close> and the first one puts none there;
  \<open>waitForAttachmentAnchored\<close> accepts it. With three dots in place of the \<open>\<dots>\<close> it is
  the other way round: \<open>waitForAttachmentAnchored\<close> looks for \<open>...\<close> after the dots
  were escaped to \<open>\.\.\.\<close> and rejects the text, \<open>waitForAttachmentCompletion\<close> accepts
  it. Both hold beyond this name: \<open>completion_pattern_without_wildcard\<close> and
  \<open>anchored_pattern_keeps_dots\<close> above.
\<close>

theorem ellipsis_rule_at_truncated_names:
  "\<not> completionMatch (units ''budget-202'' @ [ellipsisChar] @ units ''xlsx'')
        (units ''budget-2024-full-report.xlsx'')
   \<and> anchoredMatch (units ''budget-202'' @ [ellipsisChar] @ units ''xlsx'')
        (units ''budget-2024-full-report.xlsx'')
   \<and> completionMatch (units ''budget-202...xlsx'') (units ''budget-2024-full-report.xlsx'')
   \<and> \<not> anchoredMatch (units ''budget-202...xlsx'') (units ''budget-2024-full-report.xlsx'')"
  by (simp add: match_eval)

section \<open>The polling loops\<close>

declare visibleLoop.simps [simp del]
declare anchoredLoop.simps [simp del]
declare completionLoop.simps [simp del]
declare userTurnLoop.simps [simp del]

lemmas world_eval = startWorld_def steadyPage_def evaluateW_def delayW_def domW_def loggerW_def
  optLoggerW_def logDomFailureW_def


section \<open>The decision of a round of waitForAttachmentCompletion\<close>

lemma missing_empty_iff:
  "filter (\<lambda>expected. \<not> matchesExpected names expected) expectedNormalized = []
   \<longleftrightarrow> list_all (matchesExpected names) expectedNormalized"
  by (induction expectedNormalized) auto

lemma completionTick_uploading:
  "uploading v \<Longrightarrow> completionTick expectedNormalized (Some v) now since = Poll since"
  by (simp add: completionTick_def)

lemma completionTick_chips:
  assumes "\<not> uploading v"
    and "list_all (matchesExpected (filter (\<lambda>name. name \<noteq> []) (map normalizeName (attachedNames v))))
           expectedNormalized"
  shows "state v = Ready
           \<Longrightarrow> completionTick expectedNormalized (Some v) now since = Done ChipsAndReady"
    and "state v = Missing \<Longrightarrow> filesAttached v
           \<Longrightarrow> completionTick expectedNormalized (Some v) now since = Done ChipsAndNoButton"
    and "state v = Disabled \<Longrightarrow> filesAttached v
           \<Longrightarrow> completionTick expectedNormalized (Some v) now since = Hold"
  using assms by (simp_all add: completionTick_def Let_def missing_empty_iff)

text \<open>
  Claim C3. A round of \<open>waitForAttachmentCompletion\<close> that starts before the deadline and
  whose probe brings a snapshot. If the snapshot is not uploading and every expected
  name matches one of the chip or card texts, then the wait returns in this round when
  the send control is ready, and also when it is missing and files are attached; when
  files are attached and the control is disabled, the round sleeps 500 ms and the loop
  goes on with the next probe. If the snapshot is uploading, the round decides nothing:
  the loop sleeps 250 ms and goes on, with \<open>inputMatchSince\<close> as it was.
\<close>

theorem chips_matched_decision:
  assumes "clock w < deadline"
    and "answer (page i) = Some v"
  shows "(\<not> uploading v
          \<and> list_all (matchesExpected
                        (filter (\<lambda>name. name \<noteq> []) (map normalizeName (attachedNames v))))
               expectedNormalized
          \<longrightarrow> (state v = Ready
                \<longrightarrow> completionLoop page expectedNormalized deadline i since w
                    = (Some ChipsAndReady, evaluateW CompletionProbe (took (page i)) w))
              \<and> (state v = Missing \<and> filesAttached v
                \<longrightarrow> completionLoop page expectedNormalized deadline i since w
                    = (Some ChipsAndNoButton, evaluateW CompletionProbe (took (page i)) w))
              \<and> (state v = Disabled \<and> filesAttached v
                \<longrightarrow> completionLoop page expectedNormalized deadline i since w
                    = completionLoop page expectedNormalized deadline (Suc i) since
                        (delayW 500 (overslept (page i))
                           (evaluateW CompletionProbe (took (page i)) w))))
         \<and> (uploading v
          \<longrightarrow> completionLoop page expectedNormalized deadline i since w
              = completionLoop page expectedNormalized deadline (Suc i) since
                  (delayW 250 (overslept (page i))
                     (evaluateW CompletionProbe (took (page i)) w)))"
proof -
  let ?now = "clock (evaluateW CompletionProbe (took (page i)) w)"
  have step: "completionLoop page expectedNormalized deadline i since w =
     (case completionTick expectedNormalized (Some v) ?now since of
        Done r \<Rightarrow> (Some r, evaluateW CompletionProbe (took (page i)) w)
      | Hold \<Rightarrow> completionLoop page expectedNormalized deadline (Suc i) since
                 (delayW 500 (overslept (page i)) (evaluateW CompletionProbe (took (page i)) w))
      | Poll s \<Rightarrow> completionLoop page expectedNormalized deadline (Suc i) s
                 (delayW 250 (overslept (page i)) (evaluateW CompletionProbe (took (page i)) w)))"
    using assms by (subst completionLoop.simps) simp
  show ?thesis
    unfolding step
    by (auto simp: completionTick_uploading completionTick_chips)
qed

theorem chips_matched_decision_witness:
  "clock startWorld < 400
   \<and> answer (steadyPage (Some (chipSnapshot Ready False)) 0) = Some (chipSnapshot Ready False)
   \<and> \<not> uploading (chipSnapshot Ready False)
   \<and> list_all (matchesExpected
                 (filter (\<lambda>name. name \<noteq> [])
                    (map normalizeName (attachedNames (chipSnapshot Ready False)))))
        [units ''report.csv'']
   \<and> state (chipSnapshot Ready False) = Ready
   \<and> completionLoop (steadyPage (Some (chipSnapshot Ready False))) [units ''report.csv''] 400 0
        None startWorld
      = (Some ChipsAndReady, \<lparr>clock = 0, trace = [Evaluated CompletionProbe]\<rparr>)
   \<and> state (chipSnapshot Missing False) = Missing \<and> filesAttached (chipSnapshot Missing False)
   \<and> completionLoop (steadyPage (Some (chipSnapshot Missing False))) [units ''report.csv''] 400 0
        None startWorld
      = (Some ChipsAndNoButton, \<lparr>clock = 0, trace = [Evaluated CompletionProbe]\<rparr>)
   \<and> state (chipSnapshot Disabled False) = Disabled
   \<and> filesAttached (chipSnapshot Disabled False)
   \<and> completionLoop (steadyPage (Some (chipSnapshot Disabled False))) [units ''report.csv''] 400
        0 None startWorld
      = completionLoop (steadyPage (Some (chipSnapshot Disabled False))) [units ''report.csv'']
          400 1 None \<lparr>clock = 500, trace = [Evaluated CompletionProbe, Slept 500]\<rparr>
   \<and> uploading (chipSnapshot Ready True)
   \<and> completionLoop (steadyPage (Some (chipSnapshot Ready True))) [units ''report.csv''] 400 0
        None startWorld
      = completionLoop (steadyPage (Some (chipSnapshot Ready True))) [units ''report.csv''] 400
          1 None \<lparr>clock = 250, trace = [Evaluated CompletionProbe, Slept 250]\<rparr>"
proof -
  have h: "clock startWorld < 400" by (simp add: startWorld_def)
  have m: "list_all (matchesExpected
                 (filter (\<lambda>name. name \<noteq> [])
                    (map normalizeName [units ''report.csv''])))
        [units ''report.csv'']"
    by (simp add: match_eval)
  have r: "answer (steadyPage (Some (chipSnapshot Ready False)) 0) = Some (chipSnapshot Ready False)"
          "answer (steadyPage (Some (chipSnapshot Missing False)) 0) = Some (chipSnapshot Missing False)"
          "answer (steadyPage (Some (chipSnapshot Disabled False)) 0) = Some (chipSnapshot Disabled False)"
          "answer (steadyPage (Some (chipSnapshot Ready True)) 0) = Some (chipSnapshot Ready True)"
    by (simp_all add: steadyPage_def)
  show ?thesis
    using
      chips_matched_decision [where w = startWorld and deadline = 400 and i = 0
        and page = "steadyPage (Some (chipSnapshot Ready False))"
        and v = "chipSnapshot Ready False" and expectedNormalized = "[units ''report.csv'']"
        and since = None, OF h r(1)]
      chips_matched_decision [where w = startWorld and deadline = 400 and i = 0
        and page = "steadyPage (Some (chipSnapshot Missing False))"
        and v = "chipSnapshot Missing False" and expectedNormalized = "[units ''report.csv'']"
        and since = None, OF h r(2)]
      chips_matched_decision [where w = startWorld and deadline = 400 and i = 0
        and page = "steadyPage (Some (chipSnapshot Disabled False))"
        and v = "chipSnapshot Disabled False" and expectedNormalized = "[units ''report.csv'']"
        and since = None, OF h r(3)]
      chips_matched_decision [where w = startWorld and deadline = 400 and i = 0
        and page = "steadyPage (Some (chipSnapshot Ready True))"
        and v = "chipSnapshot Ready True" and expectedNormalized = "[units ''report.csv'']"
        and since = None, OF h r(4)]
      m
    by (simp add: chipSnapshot_def world_eval)
qed

section \<open>The fallback on the file inputs\<close>








lemma clock_evaluateW: "clock (evaluateW e ms w) = clock w + int ms"
  by (simp add: evaluateW_def)

lemma clock_delayW: "clock (delayW ms late w) = clock w + int ms + int late"
  by (simp add: delayW_def)












section \<open>The deadline of waitForAttachmentVisible\<close>

lemma visibleLoop_never_found:
  assumes "\<forall>j. \<not> isFound (answer (page j))"
    and "\<forall>j. took (page j) \<le> evalMax"
    and "\<forall>j. overslept (page j) \<le> lateMax"
    and "clock w < deadline + 200 + int evalMax + int lateMax"
  shows "fst (visibleLoop page expectedName deadline i w) = False
         \<and> deadline \<le> clock (snd (visibleLoop page expectedName deadline i w))
         \<and> clock w \<le> clock (snd (visibleLoop page expectedName deadline i w))
         \<and> clock (snd (visibleLoop page expectedName deadline i w))
             < max (clock w + 1) (deadline + 200 + int evalMax + int lateMax)"
  using assms
proof (induction page expectedName deadline i w rule: visibleLoop.induct)
  case (1 page expectedName deadline i w)
  show ?case
  proof (cases "clock w < deadline")
    case False
    then have "visibleLoop page expectedName deadline i w = (False, w)"
      by (subst visibleLoop.simps) simp
    with False show ?thesis by simp
  next
    case True
    let ?w2 = "delayW 200 (overslept (page i)) (evaluateW (VisibleProbe expectedName) (took (page i)) w)"
    have nf: "\<not> isFound (answer (page i))" using "1.prems"(1) by simp
    have step: "visibleLoop page expectedName deadline i w
                = visibleLoop page expectedName deadline (Suc i) ?w2"
      using True nf by (subst visibleLoop.simps) simp
    have c2: "clock ?w2 = clock w + int (took (page i)) + 200 + int (overslept (page i))"
      by (simp add: clock_delayW clock_evaluateW)
    have "took (page i) \<le> evalMax" "overslept (page i) \<le> lateMax"
      using "1.prems"(2,3) by simp_all
    then have bound: "clock ?w2 < deadline + 200 + int evalMax + int lateMax"
      using True c2 by linarith
    have ih: "fst (visibleLoop page expectedName deadline (Suc i) ?w2) = False
         \<and> deadline \<le> clock (snd (visibleLoop page expectedName deadline (Suc i) ?w2))
         \<and> clock ?w2 \<le> clock (snd (visibleLoop page expectedName deadline (Suc i) ?w2))
         \<and> clock (snd (visibleLoop page expectedName deadline (Suc i) ?w2))
             < max (clock ?w2 + 1) (deadline + 200 + int evalMax + int lateMax)"
      using "1.IH" [OF True nf "1.prems"(1) "1.prems"(2) "1.prems"(3) bound] .
    show ?thesis
      unfolding step using ih bound c2 by linarith
  qed
qed

lemma visibleLoop_found:
  assumes "isFound (answer (page (i + k)))"
    and "roundStart page i (clock w) k < deadline"
  shows "fst (visibleLoop page expectedName deadline i w)"
  using assms
proof (induction k arbitrary: i w)
  case 0
  then have "clock w < deadline" by simp
  then show ?case
    using 0 by (subst visibleLoop.simps) (simp)
next
  case (Suc k)
  let ?w2 = "delayW 200 (overslept (page i)) (evaluateW (VisibleProbe expectedName) (took (page i)) w)"
  have mono: "\<And>j t. t \<le> roundStart page j t k"
  proof (induction k)
    case 0
    show ?case by simp
  next
    case (Suc k)
    have "t \<le> t + int (took (page j)) + 200 + int (overslept (page j))" by simp
    also have "\<dots> \<le> roundStart page (Suc j) (t + int (took (page j)) + 200 + int (overslept (page j))) k"
      by (rule Suc)
    finally show ?case by simp
  qed
  have c2: "clock ?w2 = clock w + int (took (page i)) + 200 + int (overslept (page i))"
    by (simp add: clock_delayW clock_evaluateW)
  have start: "roundStart page (Suc i) (clock ?w2) k < deadline"
    using Suc.prems(2) c2 by simp
  have "clock w \<le> clock ?w2" using c2 by simp
  also have "\<dots> \<le> roundStart page (Suc i) (clock ?w2) k" by (rule mono)
  finally have running: "clock w < deadline" using start by simp
  show ?case
  proof (cases "isFound (answer (page i))")
    case True
    then show ?thesis using running by (subst visibleLoop.simps) simp
  next
    case False
    have "fst (visibleLoop page expectedName deadline (Suc i) ?w2)"
      using Suc.IH [of "Suc i" ?w2] Suc.prems(1) start by simp
    then show ?thesis using running False by (subst visibleLoop.simps) simp
  qed
qed

lemma visibleLoop_not_early:
  assumes "\<forall>j. \<not> isFound (answer (page j))"
  shows "fst (visibleLoop page expectedName deadline i w) = False
         \<and> deadline \<le> clock (snd (visibleLoop page expectedName deadline i w))
         \<and> clock w \<le> clock (snd (visibleLoop page expectedName deadline i w))"
  using assms
proof (induction page expectedName deadline i w rule: visibleLoop.induct)
  case (1 page expectedName deadline i w)
  show ?case
  proof (cases "clock w < deadline")
    case False
    then have "visibleLoop page expectedName deadline i w = (False, w)"
      by (subst visibleLoop.simps) simp
    with False show ?thesis by simp
  next
    case True
    let ?w2 = "delayW 200 (overslept (page i)) (evaluateW (VisibleProbe expectedName) (took (page i)) w)"
    have nf: "\<not> isFound (answer (page i))" using "1.prems"(1) by simp
    have step: "visibleLoop page expectedName deadline i w
                = visibleLoop page expectedName deadline (Suc i) ?w2"
      using True nf by (subst visibleLoop.simps) simp
    have c2: "clock w \<le> clock ?w2"
      by (simp add: clock_delayW clock_evaluateW)
    show ?thesis
      unfolding step using "1.IH" [OF True nf "1.prems"(1)] c2 by linarith
  qed
qed

lemma trace_visible_failure:
  "trace (logDomFailureW AttachmentVisible diagMs (optLoggerW hasLogger NotVisibleGivingUp w))
   = trace w @ (if hasLogger then [Logged NotVisibleGivingUp] else [])
       @ [DomFailureLogged AttachmentVisible]"
  by (simp add: logDomFailureW_def optLoggerW_def loggerW_def)

lemma clock_visible_failure:
  "clock (logDomFailureW AttachmentVisible diagMs (optLoggerW hasLogger NotVisibleGivingUp w))
   = clock w + int diagMs"
  by (simp add: logDomFailureW_def optLoggerW_def loggerW_def)

lemma wait_visible_unfold:
  "waitForAttachmentVisible page diagMs expectedName timeoutMs hasLogger w =
     (if fst (visibleLoop page expectedName (clock w + timeoutMs) 0 w)
      then (Returned (), snd (visibleLoop page expectedName (clock w + timeoutMs) 0 w))
      else (Threw NotVisible,
            logDomFailureW AttachmentVisible diagMs
              (optLoggerW hasLogger NotVisibleGivingUp
                 (snd (visibleLoop page expectedName (clock w + timeoutMs) 0 w)))))"
  unfolding waitForAttachmentVisible_def Let_def
  by (cases "visibleLoop page expectedName (clock w + timeoutMs) 0 w") auto

text \<open>
  Claim C7, as the code has it. If no round of \<open>waitForAttachmentVisible\<close> finds the
  name, the wait throws, after the diagnostics were captured and never before the
  deadline. The loop is left at the first reading of the clock at or after the
  deadline; when the timeout is not negative, no probe takes longer than \<open>evalMax\<close> and
  no sleep runs over by more than \<open>lateMax\<close>, the error is thrown less than
  \<open>timeoutMs + 200 + evalMax + lateMax\<close> ms after entry, plus the time of the diagnostics:
  within the timeout and one poll interval when the page answers at once. And if round
  \<open>k\<close> finds the name and starts before the deadline, the wait returns without error.
\<close>

theorem visible_wait_deadline:
  "((\<forall>j. \<not> isFound (answer (page j)))
      \<longrightarrow> fst (waitForAttachmentVisible page diagMs expectedName timeoutMs hasLogger w)
            = Threw NotVisible
          \<and> last (trace (snd (waitForAttachmentVisible page diagMs expectedName timeoutMs
                                 hasLogger w)))
            = DomFailureLogged AttachmentVisible
          \<and> clock w + timeoutMs
            \<le> clock (snd (waitForAttachmentVisible page diagMs expectedName timeoutMs
                              hasLogger w))
          \<and> (0 \<le> timeoutMs \<and> (\<forall>j. took (page j) \<le> evalMax)
               \<and> (\<forall>j. overslept (page j) \<le> lateMax)
             \<longrightarrow> clock (snd (waitForAttachmentVisible page diagMs expectedName timeoutMs
                                 hasLogger w))
                 < clock w + timeoutMs + 200 + int evalMax + int lateMax + int diagMs))
   \<and> (isFound (answer (page k)) \<and> roundStart page 0 (clock w) k < clock w + timeoutMs
      \<longrightarrow> fst (waitForAttachmentVisible page diagMs expectedName timeoutMs hasLogger w)
          = Returned ())"
proof -
  let ?loop = "visibleLoop page expectedName (clock w + timeoutMs) 0 w"
  let ?R = "waitForAttachmentVisible page diagMs expectedName timeoutMs hasLogger w"
  have never: "fst ?R = Threw NotVisible
          \<and> last (trace (snd ?R)) = DomFailureLogged AttachmentVisible
          \<and> clock w + timeoutMs \<le> clock (snd ?R)
          \<and> (0 \<le> timeoutMs \<and> (\<forall>j. took (page j) \<le> evalMax)
               \<and> (\<forall>j. overslept (page j) \<le> lateMax)
             \<longrightarrow> clock (snd ?R)
                 < clock w + timeoutMs + 200 + int evalMax + int lateMax + int diagMs)"
    if nf: "\<forall>j. \<not> isFound (answer (page j))"
  proof -
    have early: "fst ?loop = False" "clock w + timeoutMs \<le> clock (snd ?loop)"
      using visibleLoop_not_early [OF nf, of expectedName "clock w + timeoutMs" 0 w] by simp_all
    have R: "?R = (Threw NotVisible,
                   logDomFailureW AttachmentVisible diagMs
                     (optLoggerW hasLogger NotVisibleGivingUp (snd ?loop)))"
      using early(1) by (simp add: wait_visible_unfold)
    have late: "clock (snd ?R)
                 < clock w + timeoutMs + 200 + int evalMax + int lateMax + int diagMs"
      if b: "0 \<le> timeoutMs" "\<forall>j. took (page j) \<le> evalMax" "\<forall>j. overslept (page j) \<le> lateMax"
    proof -
      have "clock w < clock w + timeoutMs + 200 + int evalMax + int lateMax"
        using b(1) by simp
      then have "clock (snd ?loop)
             < max (clock w + 1) (clock w + timeoutMs + 200 + int evalMax + int lateMax)"
        using visibleLoop_never_found [OF nf b(2) b(3), of w "clock w + timeoutMs" expectedName 0]
        by simp
      then have "clock (snd ?loop) < clock w + timeoutMs + 200 + int evalMax + int lateMax"
        using b(1) by simp
      then show ?thesis by (simp add: R clock_visible_failure)
    qed
    show ?thesis
      using early(2) late by (simp add: R trace_visible_failure clock_visible_failure)
  qed
  have found: "fst ?R = Returned ()"
    if f: "isFound (answer (page k))" "roundStart page 0 (clock w) k < clock w + timeoutMs"
  proof -
    have "fst ?loop"
      using visibleLoop_found [of page 0 k w "clock w + timeoutMs" expectedName] f by simp
    then show ?thesis by (simp add: wait_visible_unfold)
  qed
  show ?thesis using never found by blast
qed

lemmas visible_eval = waitForAttachmentVisible_def visibleLoop.simps isFound_def slowPage_def
  appearingPage_def

theorem visible_wait_deadline_witness:
  "(\<forall>j. \<not> isFound (answer (steadyPage (Some False) j)))
   \<and> (0::int) \<le> 500
   \<and> (\<forall>j. took (steadyPage (Some False) j) \<le> 0)
   \<and> (\<forall>j. overslept (steadyPage (Some False) j) \<le> 0)
   \<and> waitForAttachmentVisible (steadyPage (Some False)) 0 (units ''report.csv'') 500 True
        startWorld
      = (Threw NotVisible,
         \<lparr>clock = 600,
          trace = [Evaluated (VisibleProbe (units ''report.csv'')), Slept 200,
                   Evaluated (VisibleProbe (units ''report.csv'')), Slept 200,
                   Evaluated (VisibleProbe (units ''report.csv'')), Slept 200,
                   Logged NotVisibleGivingUp, DomFailureLogged AttachmentVisible]\<rparr>)
   \<and> clock startWorld + 500 \<le> 600
   \<and> (600::int) < clock startWorld + 500 + 200 + int 0 + int 0 + int 0
   \<and> isFound (answer (appearingPage 2 2))
   \<and> roundStart (appearingPage 2) 0 (clock startWorld) 2 < clock startWorld + 500
   \<and> waitForAttachmentVisible (appearingPage 2) 0 (units ''report.csv'') 500 True startWorld
      = (Returned (),
         \<lparr>clock = 400,
          trace = [Evaluated (VisibleProbe (units ''report.csv'')), Slept 200,
                   Evaluated (VisibleProbe (units ''report.csv'')), Slept 200,
                   Evaluated (VisibleProbe (units ''report.csv''))]\<rparr>)"
proof -
  have run1: "waitForAttachmentVisible (steadyPage (Some False)) 0 (units ''report.csv'') 500 True
        startWorld
      = (Threw NotVisible,
         \<lparr>clock = 600,
          trace = [Evaluated (VisibleProbe (units ''report.csv'')), Slept 200,
                   Evaluated (VisibleProbe (units ''report.csv'')), Slept 200,
                   Evaluated (VisibleProbe (units ''report.csv'')), Slept 200,
                   Logged NotVisibleGivingUp, DomFailureLogged AttachmentVisible]\<rparr>)"
    by (simp add: visible_eval world_eval)
  have run2: "waitForAttachmentVisible (appearingPage 2) 0 (units ''report.csv'') 500 True
        startWorld
      = (Returned (),
         \<lparr>clock = 400,
          trace = [Evaluated (VisibleProbe (units ''report.csv'')), Slept 200,
                   Evaluated (VisibleProbe (units ''report.csv'')), Slept 200,
                   Evaluated (VisibleProbe (units ''report.csv''))]\<rparr>)"
    by (simp add: visible_eval world_eval)
  have rs: "roundStart (appearingPage 2) 0 (clock startWorld) 2 < clock startWorld + 500"
    by (simp add: appearingPage_def startWorld_def numeral_2_eq_2)
  show ?thesis
    using
      visible_wait_deadline [where page = "steadyPage (Some False)" and diagMs = 0
        and expectedName = "units ''report.csv''" and timeoutMs = 500 and hasLogger = True
        and w = startWorld and evalMax = 0 and lateMax = 0 and k = 0]
      visible_wait_deadline [where page = "appearingPage 2" and diagMs = 0
        and expectedName = "units ''report.csv''" and timeoutMs = 500 and hasLogger = True
        and w = startWorld and evalMax = 0 and lateMax = 0 and k = 2]
      run1 run2 rs
    by (simp add: steadyPage_def isFound_def appearingPage_def startWorld_def)
qed

text \<open>
  Claim C7 as stated fails, since the wall-clock time of a round is the time of its probe
  and its sleep. With a page that takes 1000 ms to answer a probe and never shows the
  name, and a timeout of 100 ms, the only round ends at 1200 ms, and the error is thrown
  then: later than the timeout and one poll interval after entry.
\<close>

theorem visible_wait_overruns_with_slow_page:
  "waitForAttachmentVisible slowPage 0 (units ''report.csv'') 100 True startWorld
     = (Threw NotVisible,
        \<lparr>clock = 1200,
         trace = [Evaluated (VisibleProbe (units ''report.csv'')), Slept 200,
                  Logged NotVisibleGivingUp, DomFailureLogged AttachmentVisible]\<rparr>)
   \<and> \<not> isFound (answer (slowPage 0))
   \<and> \<not> (1200 \<le> clock startWorld + 100 + 200)"
  by (simp add: visible_eval world_eval)

section \<open>waitForUserTurnAttachments without names\<close>

text \<open>
  Claim C9. Called without a list of expected names, or with the empty list,
  \<open>waitForUserTurnAttachments\<close> returns at once for every timeout: the world it leaves is
  the one it found, with no probe of the page and no sleep in the trace and the clock
  where it was, and it throws nothing.
\<close>

theorem user_turn_no_names:
  "waitForUserTurnAttachments page diagMs None timeoutMs hasLogger w = (Returned (), w)
   \<and> waitForUserTurnAttachments page diagMs (Some []) timeoutMs hasLogger w = (Returned (), w)"
  by (simp add: waitForUserTurnAttachments_def)

section \<open>The four matchers on one displayed name\<close>

lemma truncated_anchored:
  "anchoredExpression (toLowerCase (units ''budget-2024-full-report.xlsx'')) truncatedChipView"
  by (simp add: anchoredExpression_def truncatedChipView_def truncatedChip_def cardTexts_def
      match_eval)

lemma truncated_not_visible:
  "\<not> visibleExpression (units ''budget-2024-full-report.xlsx'') truncatedChipView"
  by (simp add: visibleExpression_def truncatedChipView_def truncatedChip_def cardTexts_def
      match_eval)

lemma posixBasename_budget:
  "posixBasename (units ''/tmp/budget-2024-full-report.xlsx'') = units ''budget-2024-full-report.xlsx''"
  by (simp add: posixBasename_def afterLast_def units_def)

lemma anchoredLoop_found_at_once:
  assumes "clock w < deadline" "isFound (answer (page i))"
  shows "anchoredLoop page expectedName deadline i w
         = (True, evaluateW (AnchoredProbe expectedName) (took (page i)) w)"
  using assms by (subst anchoredLoop.simps) simp

lemma wait_visible_never_found:
  assumes "\<forall>j. \<not> isFound (answer (page j))"
  shows "fst (waitForAttachmentVisible page diagMs expectedName timeoutMs hasLogger w)
         = Threw NotVisible"
  using visibleLoop_not_early [OF assms, of expectedName "clock w + timeoutMs" 0 w]
  by (simp add: wait_visible_unfold)

lemma truncated_upload:
  "fst (uploadAttachmentFile truncatedChipEnv
          \<lparr>path = units ''/tmp/budget-2024-full-report.xlsx''\<rparr> startWorld)
   = Threw NotVisible"
proof -
  let ?name = "units ''budget-2024-full-report.xlsx''"
  have absent: "\<not> isAttachmentPresentExpression (toLowerCase ?name)
                    (answer (presenceView truncatedChipEnv))"
    by (simp add: truncatedChipEnv_def isAttachmentPresentExpression_def)
  have marked: "markTargetExpression (answer (markView truncatedChipEnv))"
    by (simp add: truncatedChipEnv_def markTargetExpression_def markTarget_def
        acceptIsImageOnly_def)
  have node: "answer (queriedNode truncatedChipEnv) = Some 7"
    by (simp add: truncatedChipEnv_def)
  have base: "basename truncatedChipEnv (path \<lparr>path = units ''/tmp/budget-2024-full-report.xlsx''\<rparr>)
              = ?name"
    by (simp add: truncatedChipEnv_def posixBasename_budget)
  have anch: "isFound (answer (anchoredPage truncatedChipEnv i))" for i
    by (simp add: truncatedChipEnv_def steadyPage_def isFound_def truncated_anchored)
  have vis: "\<forall>j. \<not> isFound (answer (visiblePage truncatedChipEnv j))"
    by (simp add: truncatedChipEnv_def steadyPage_def isFound_def truncated_not_visible)
  have confirm: "fst (dispatchAndConfirm truncatedChipEnv att ?name 7 w) = Threw NotVisible"
    for att w
  proof -
    let ?w4 = "(if answer (afterSnapshot truncatedChipEnv) \<noteq> None
                then loggerW SnapshotAfterSetFiles
                       (evaluateW UploadSnapshot (took (afterSnapshot truncatedChipEnv))
                          (evaluateW DispatchEvents (dispatchMs truncatedChipEnv)
                             (domW (SetFileInputFiles 7 (path att)) (setFilesMs truncatedChipEnv) w)))
                else evaluateW UploadSnapshot (took (afterSnapshot truncatedChipEnv))
                       (evaluateW DispatchEvents (dispatchMs truncatedChipEnv)
                          (domW (SetFileInputFiles 7 (path att)) (setFilesMs truncatedChipEnv) w)))"
    have a: "waitForAttachmentAnchored (anchoredPage truncatedChipEnv) ?name 12000 ?w4
             = (True, evaluateW (AnchoredProbe ?name) (took (anchoredPage truncatedChipEnv 0)) ?w4)"
      unfolding waitForAttachmentAnchored_def
      by (rule anchoredLoop_found_at_once) (simp_all add: anch)
    obtain r w6 where v: "waitForAttachmentVisible (visiblePage truncatedChipEnv)
             (diagnosticsMs truncatedChipEnv) ?name 12000 True
             (evaluateW (AnchoredProbe ?name) (took (anchoredPage truncatedChipEnv 0)) ?w4) = (r, w6)"
      by (cases "waitForAttachmentVisible (visiblePage truncatedChipEnv)
             (diagnosticsMs truncatedChipEnv) ?name 12000 True
             (evaluateW (AnchoredProbe ?name) (took (anchoredPage truncatedChipEnv 0)) ?w4)")
    have "r = Threw NotVisible"
      using wait_visible_never_found [OF vis, of "diagnosticsMs truncatedChipEnv" ?name 12000 True
          "evaluateW (AnchoredProbe ?name) (took (anchoredPage truncatedChipEnv 0)) ?w4"] v
      by simp
    then show ?thesis
      unfolding dispatchAndConfirm_def Let_def a using v by simp
  qed
  show ?thesis
    unfolding uploadAttachmentFile_def Let_def base
    using absent marked node confirm
    by (simp add: truncatedChipEnv_def base)
qed

lemma matchers_on_truncated_chip:
  "anchoredMatch truncatedChip (units ''budget-2024-full-report.xlsx'')
   \<and> \<not> visibleMatch truncatedChip (units ''budget-2024-full-report.xlsx'')
   \<and> \<not> userTurnMatch truncatedChip (units ''budget-2024-full-report.xlsx'')
   \<and> \<not> completionMatch truncatedChip (units ''budget-2024-full-report.xlsx'')"
  by (simp add: truncatedChip_def match_eval)

lemma matchers_on_wide_space:
  "completionMatch (units ''q3  report.pdf'') (units ''q3 report.pdf'')
   \<and> \<not> anchoredMatch (units ''q3  report.pdf'') (units ''q3 report.pdf'')
   \<and> \<not> visibleMatch (units ''q3  report.pdf'') (units ''q3 report.pdf'')
   \<and> \<not> userTurnMatch (units ''q3  report.pdf'') (units ''q3 report.pdf'')"
  by (simp add: match_eval)

lemma matchers_on_path:
  "completionMatch (units ''notes.txt'') (units ''docs/notes.txt'')
   \<and> userTurnMatch (units ''notes.txt'') (units ''docs/notes.txt'')
   \<and> \<not> anchoredMatch (units ''notes.txt'') (units ''docs/notes.txt'')
   \<and> \<not> visibleMatch (units ''notes.txt'') (units ''docs/notes.txt'')"
  by (simp add: match_eval)

text \<open>
  Claim C2 fails in the code: the four waits do not embed one matcher, and they answer
  differently on names the page can show.

  \<^item> The chip text \<open>budget-202\<dots>xlsx\<close> (one-character ellipsis) for the expected name
    \<open>budget-2024-full-report.xlsx\<close>: the matcher of \<open>waitForAttachmentAnchored\<close> says yes,
    \<open>matchNode\<close> of \<open>waitForAttachmentVisible\<close> and the filter of
    \<open>waitForUserTurnAttachments\<close>, which have no ellipsis rule, say no, and so does
    \<open>matchesExpected\<close> of \<open>waitForAttachmentCompletion\<close>, whose ellipsis rule misses this
    marker. \<open>uploadAttachmentFile\<close> calls the visible wait right after the anchored one:
    on a composer that shows this chip the anchored probe finds the name, the visible
    probe never does, and the upload of \<open>/tmp/budget-2024-full-report.xlsx\<close> throws the
    error of \<open>waitForAttachmentVisible\<close> although the file is attached.
  \<^item> The text \<open>q3  report.pdf\<close>, with two spaces, for the name \<open>q3 report.pdf\<close>: only
    \<open>waitForAttachmentCompletion\<close>, which collapses the white space of the text, says
    yes.
  \<^item> The text \<open>notes.txt\<close> for the expected name \<open>docs/notes.txt\<close>:
    \<open>waitForAttachmentCompletion\<close> and \<open>waitForUserTurnAttachments\<close>, which take the base
    name of the expected name, say yes, the other two say no.
\<close>

theorem matchers_disagree_on_displayed_names:
  "anchoredMatch truncatedChip (units ''budget-2024-full-report.xlsx'')
   \<and> \<not> visibleMatch truncatedChip (units ''budget-2024-full-report.xlsx'')
   \<and> \<not> userTurnMatch truncatedChip (units ''budget-2024-full-report.xlsx'')
   \<and> \<not> completionMatch truncatedChip (units ''budget-2024-full-report.xlsx'')
   \<and> anchoredExpression (toLowerCase (units ''budget-2024-full-report.xlsx'')) truncatedChipView
   \<and> \<not> visibleExpression (units ''budget-2024-full-report.xlsx'') truncatedChipView
   \<and> fst (uploadAttachmentFile truncatedChipEnv
            \<lparr>path = units ''/tmp/budget-2024-full-report.xlsx''\<rparr> startWorld)
      = Threw NotVisible
   \<and> completionMatch (units ''q3  report.pdf'') (units ''q3 report.pdf'')
   \<and> \<not> anchoredMatch (units ''q3  report.pdf'') (units ''q3 report.pdf'')
   \<and> \<not> visibleMatch (units ''q3  report.pdf'') (units ''q3 report.pdf'')
   \<and> \<not> userTurnMatch (units ''q3  report.pdf'') (units ''q3 report.pdf'')
   \<and> completionMatch (units ''notes.txt'') (units ''docs/notes.txt'')
   \<and> userTurnMatch (units ''notes.txt'') (units ''docs/notes.txt'')
   \<and> \<not> anchoredMatch (units ''notes.txt'') (units ''docs/notes.txt'')
   \<and> \<not> visibleMatch (units ''notes.txt'') (units ''docs/notes.txt'')"
  using truncated_anchored truncated_not_visible truncated_upload matchers_on_truncated_chip
    matchers_on_wide_space matchers_on_path
  by simp

section \<open>uploadAttachmentFile before the dispatch\<close>

text \<open>
  Claim C10. Without the \<open>DOM\<close> domain (\<open>deps.dom\<close> absent) \<open>uploadAttachmentFile\<close> throws
  for every attachment before anything is done to the page: the world it leaves is the
  one it found, with no evaluation, click or sleep in the trace.
\<close>

theorem upload_without_dom:
  assumes "\<not> domPresent env"
  shows "uploadAttachmentFile env attachment w = (Threw DomUnavailable, w)"
  using assms by (simp add: uploadAttachmentFile_def)

theorem upload_without_dom_witness:
  "\<not> domPresent (sampleEnv False emptyView)
   \<and> uploadAttachmentFile (sampleEnv False emptyView)
        \<lparr>path = units ''/tmp/quarterly-report.xlsx''\<rparr> startWorld
      = (Threw DomUnavailable, \<lparr>clock = 0, trace = []\<rparr>)"
proof -
  have h: "\<not> domPresent (sampleEnv False emptyView)" by (simp add: sampleEnv_def)
  show ?thesis
    using upload_without_dom [OF h, of "\<lparr>path = units ''/tmp/quarterly-report.xlsx''\<rparr>" startWorld] h
    by (simp add: startWorld_def)
qed

lemma markTarget_no_inputs: "fileInputs v = [] \<Longrightarrow> \<not> markTargetExpression v"
  by (simp add: markTargetExpression_def markTarget_def)

text \<open>
  Claim C5. When the attachment is not yet present and the document has no file input
  as the marking expression runs, \<open>uploadAttachmentFile\<close> throws the error of the input
  that cannot be located. All it has done by then is the two best-effort clicks with the
  sleep between them, the presence check, the marking expression and, last, the capture
  of the diagnostics: no file was set on any input and no event was dispatched.
\<close>

theorem upload_without_file_input:
  assumes "domPresent env"
    and "\<not> isAttachmentPresentExpression (toLowerCase (basename env (path attachment)))
             (answer (presenceView env))"
    and "fileInputs (answer (markView env)) = []"
  shows "fst (uploadAttachmentFile env attachment w) = Threw InputNotLocated
         \<and> trace (snd (uploadAttachmentFile env attachment w))
           = trace w @ [Evaluated PlusClick, Slept 250, Evaluated MenuClick,
                        Evaluated (AttachmentPresent
                                     (toLowerCase (basename env (path attachment)))),
                        Evaluated MarkTarget, DomFailureLogged FileInputMissing]"
  using assms markTarget_no_inputs [of "answer (markView env)"]
  by (simp add: uploadAttachmentFile_def Let_def evaluateW_def delayW_def logDomFailureW_def)

theorem upload_without_file_input_witness:
  "domPresent (sampleEnv True emptyView)
   \<and> \<not> isAttachmentPresentExpression
         (toLowerCase (basename (sampleEnv True emptyView)
                         (path \<lparr>path = units ''/tmp/quarterly-report.xlsx''\<rparr>)))
         (answer (presenceView (sampleEnv True emptyView)))
   \<and> fileInputs (answer (markView (sampleEnv True emptyView))) = []
   \<and> uploadAttachmentFile (sampleEnv True emptyView)
        \<lparr>path = units ''/tmp/quarterly-report.xlsx''\<rparr> startWorld
      = (Threw InputNotLocated,
         \<lparr>clock = 250,
          trace = [Evaluated PlusClick, Slept 250, Evaluated MenuClick,
                   Evaluated (AttachmentPresent (units ''quarterly-report.xlsx'')),
                   Evaluated MarkTarget, DomFailureLogged FileInputMissing]\<rparr>)"
proof -
  have h1: "domPresent (sampleEnv True emptyView)" by (simp add: sampleEnv_def)
  have h2: "\<not> isAttachmentPresentExpression
         (toLowerCase (basename (sampleEnv True emptyView)
                         (path \<lparr>path = units ''/tmp/quarterly-report.xlsx''\<rparr>)))
         (answer (presenceView (sampleEnv True emptyView)))"
    by (simp add: sampleEnv_def emptyView_def isAttachmentPresentExpression_def)
  have h3: "fileInputs (answer (markView (sampleEnv True emptyView))) = []"
    by (simp add: sampleEnv_def emptyView_def)
  have run: "uploadAttachmentFile (sampleEnv True emptyView)
        \<lparr>path = units ''/tmp/quarterly-report.xlsx''\<rparr> startWorld
      = (Threw InputNotLocated,
         \<lparr>clock = 250,
          trace = [Evaluated PlusClick, Slept 250, Evaluated MenuClick,
                   Evaluated (AttachmentPresent (units ''quarterly-report.xlsx'')),
                   Evaluated MarkTarget, DomFailureLogged FileInputMissing]\<rparr>)"
    by (simp add: uploadAttachmentFile_def sampleEnv_def emptyView_def
        isAttachmentPresentExpression_def markTargetExpression_def markTarget_def
        world_eval posixBasename_def afterLast_def units_def toLowerCase_def lowerUnit_def)
  show ?thesis
    using upload_without_file_input [OF h1 h2 h3, of startWorld] h1 h2 h3 run
    by simp
qed


end
